theory Spec2Isabelle
  imports Complex_Main "HOL-Library.AList" "HOL-Library.Char_ord" "HOL-Library.List_Lexorder"
    "HOL-Library.Product_Lexorder"
begin

section \<open>Errors\<close>

text \<open>
  Every exception the modelled functions of \<^verbatim>\<open>_utils.py\<close> and \<^verbatim>\<open>_medcat.py\<close> can raise
  is a value. \<open>EntitiyNotFoundError\<close> keeps the spelling of the class in the source and
  carries the message, see \<open>message\<close> below.
\<close>

datatype message =
    Did_not_find_suggest "string list" string
  | Did_not_find "string list"

datatype error =
    ValueError
  | IndexError
  | KeyError
  | TypeError
  | AttributeError
  | StatusNotSupportedError
  | EntitiyNotFoundError message

section \<open>GroupSelector: \<^verbatim>\<open>_get_groups_order\<close>\<close>

text \<open>
  The \<^verbatim>\<open>groups\<close> argument is the string \<^verbatim>\<open>"all"\<close>, another bare string or integer, or a
  sequence of group identifiers, all strings or all integers (sequences mixing both are
  outside the documented argument type and are not modelled).
\<close>

datatype groups_subset =
    Scalar_str string
  | Scalar_int int
  | Strs "string list"
  | Ints "int list"

text \<open>Python's \<^verbatim>\<open>str(n)\<close> on an integer: decimal digits, with a minus sign when negative.\<close>

fun digit_char :: "nat \<Rightarrow> char" where
  "digit_char n = ''0123456789'' ! n"

fun str_nat :: "nat \<Rightarrow> string" where
  "str_nat n = (if n < 10 then [digit_char n] else str_nat (n div 10) @ [digit_char (n mod 10)])"

definition str_int :: "int \<Rightarrow> string" where
  "str_int i = (if i < 0 then CHR ''-'' # str_nat (nat (- i)) else str_nat (nat i))"

definition get_groups_order :: "groups_subset \<Rightarrow> string list \<Rightarrow> string \<Rightarrow> error + string list" where
  "get_groups_order groups_subset group_names reference =
     (case
        (case groups_subset of
           Scalar_str s \<Rightarrow> if s = ''all'' then Inr group_names else Inl ValueError
         | Scalar_int _ \<Rightarrow> Inl ValueError
         | Strs xs \<Rightarrow>
             if xs = [] then Inl IndexError
             else Inr (if reference \<noteq> ''rest'' \<and> reference \<notin> set xs then xs @ [reference] else xs)
         | Ints ns \<Rightarrow>
             if ns = [] then Inl IndexError
             else (let groups_order = map str_int ns
                   in Inr (if reference \<noteq> ''rest'' \<and> reference \<notin> set groups_order
                           then groups_order @ [reference] else groups_order)))
      of Inl e \<Rightarrow> Inl e
       | Inr groups_order \<Rightarrow>
           if reference \<noteq> ''rest'' \<and> reference \<notin> set group_names then Inl ValueError
           else Inr groups_order)"

section \<open>CategoricalTester: \<^verbatim>\<open>_evaluate_categorical_features\<close>\<close>

text \<open>
  The part of the annotated data matrix the tester reads: the observation columns
  \<^verbatim>\<open>adata.obs\<close>, the entry \<^verbatim>\<open>adata.uns["non_numerical_columns"]\<close> and, for each variable
  name, the flattened column \<^verbatim>\<open>adata[:, feature].X\<close>. All columns of one matrix have one
  entry per observation. Feature values are taken from a linearly ordered type.
\<close>

record 'v adata =
  obs :: "(string \<times> string list) list"
  non_numerical_columns :: "string list option"
  X :: "(string \<times> 'v list) list"

definition tests_to_lambdas :: "(string \<times> real) list" where
  "tests_to_lambdas =
     [(''chi-square'', 1), (''g-test'', 0), (''freeman-tukey'', - 1 / 2),
      (''mod-log-likelihood'', - 1), (''neyman'', - 2), (''cressie-read'', 2 / 3)]"

text \<open>
  \<^verbatim>\<open>pd.crosstab(index, columns).values\<close>: one row per distinct value of the first
  sequence, one column per distinct value of the second, both in ascending order; a
  cell counts the positions that carry that pair.
\<close>

definition crosstab :: "'a::linorder list \<Rightarrow> 'b::linorder list \<Rightarrow> nat list list" where
  "crosstab index columns =
     (let pairs = zip index columns
      in map (\<lambda>r. map (\<lambda>c. count_list pairs (r, c)) (sort (remdups columns)))
             (sort (remdups index)))"

text \<open>The mask of the \<^verbatim>\<open>reference == "rest"\<close> branch.\<close>

definition rest_mask :: "string list \<Rightarrow> string list \<Rightarrow> string \<Rightarrow> bool list" where
  "rest_mask groups_values groups_order grp =
     map (\<lambda>g. g \<noteq> grp \<and> g \<in> set groups_order) groups_values"

text \<open>The contingency table of one feature and one group, both branches.\<close>

definition contingency_table ::
  "string list \<Rightarrow> 'v::linorder list \<Rightarrow> string list \<Rightarrow> string \<Rightarrow> string \<Rightarrow> nat list list" where
  "contingency_table groups_values feature_values groups_order reference grp =
     (if reference = ''rest''
      then crosstab feature_values (rest_mask groups_values groups_order grp)
      else (let taken = filter (\<lambda>(g, v). g \<in> set [grp, reference]) (zip groups_values feature_values)
            in crosstab (map snd taken) (map (\<lambda>(g, v). g = reference) taken)))"

text \<open>
  One pass of the inner loop body after the membership test: the table, then the
  external test primitive \<open>chi2\<close> (scipy's \<^verbatim>\<open>chi2_contingency\<close>, a parameter of the model)
  with the \<^verbatim>\<open>lambda_\<close> looked up for the method.
\<close>

definition group_test ::
  "(nat list list \<Rightarrow> real \<Rightarrow> real \<times> real) \<Rightarrow> string list \<Rightarrow> 'v::linorder list \<Rightarrow> string list
     \<Rightarrow> string \<Rightarrow> string \<Rightarrow> string \<Rightarrow> error + real \<times> real" where
  "group_test chi2 groups_values feature_values groups_order reference categorical_method grp =
     (case map_of tests_to_lambdas categorical_method of
        None \<Rightarrow> Inl KeyError
      | Some lam \<Rightarrow>
          Inr (chi2 (contingency_table groups_values feature_values groups_order reference grp) lam))"

text \<open>The loop \<^verbatim>\<open>for group in group_names\<close>, accumulating \<^verbatim>\<open>scores\<close> and \<^verbatim>\<open>pvals\<close>.\<close>

fun groups_loop ::
  "(string \<Rightarrow> error + real \<times> real) \<Rightarrow> string list \<Rightarrow> string list \<Rightarrow> real list \<times> real list
     \<Rightarrow> error + real list \<times> real list" where
  "groups_loop test groups_order [] (scores, pvals) = Inr (scores, pvals)"
| "groups_loop test groups_order (grp # rest) (scores, pvals) =
     (if grp \<notin> set groups_order then groups_loop test groups_order rest (scores, pvals)
      else (case test grp of
              Inl e \<Rightarrow> Inl e
            | Inr (score, p_value) \<Rightarrow>
                groups_loop test groups_order rest (scores @ [score], pvals @ [p_value])))"

record categorical_result =
  categorical_names :: "string list list"
  categorical_scores :: "real list list"
  categorical_pvals :: "real list list"
  categorical_logfoldchanges :: "real list list"
  categorical_pts :: "real list list"

text \<open>The loop \<^verbatim>\<open>for feature in adata.uns["non_numerical_columns"]\<close>.\<close>

fun features_loop ::
  "(nat list list \<Rightarrow> real \<Rightarrow> real \<times> real) \<Rightarrow> 'v::linorder adata \<Rightarrow> string \<Rightarrow> string list
     \<Rightarrow> string list \<Rightarrow> string list \<Rightarrow> string \<Rightarrow> string \<Rightarrow> bool \<Rightarrow> string list
     \<Rightarrow> categorical_result \<Rightarrow> error + categorical_result" where
  "features_loop chi2 ad groupby group_names groups_order groups_values reference
       categorical_method pts [] acc = Inr acc"
| "features_loop chi2 ad groupby group_names groups_order groups_values reference
       categorical_method pts (feature # rest) acc =
     (if feature = groupby \<or> ''ehrapycat_'' @ feature = groupby \<or> feature = ''ehrapycat_'' @ groupby
      then features_loop chi2 ad groupby group_names groups_order groups_values reference
             categorical_method pts rest acc
      else (case map_of (X ad) feature of
              None \<Rightarrow> Inl KeyError
            | Some feature_values \<Rightarrow>
               (case groups_loop
                       (group_test chi2 groups_values feature_values groups_order reference
                          categorical_method)
                       groups_order group_names ([], []) of
                  Inl e \<Rightarrow> Inl e
                | Inr (scores, pvals) \<Rightarrow>
                    features_loop chi2 ad groupby group_names groups_order groups_values reference
                      categorical_method pts rest
                      (acc\<lparr>categorical_names :=
                             categorical_names acc @ [replicate (length group_names) feature],
                           categorical_scores := categorical_scores acc @ [scores],
                           categorical_pvals := categorical_pvals acc @ [pvals],
                           categorical_logfoldchanges :=
                             categorical_logfoldchanges acc @ [replicate (length group_names) 1],
                           categorical_pts :=
                             (if pts then categorical_pts acc @ [replicate (length group_names) 1]
                              else categorical_pts acc)\<rparr>))))"

definition evaluate_categorical_features ::
  "(nat list list \<Rightarrow> real \<Rightarrow> real \<times> real) \<Rightarrow> 'v::linorder adata \<Rightarrow> string \<Rightarrow> string list
     \<Rightarrow> groups_subset \<Rightarrow> string \<Rightarrow> string \<Rightarrow> bool \<Rightarrow> error + categorical_result" where
  "evaluate_categorical_features chi2 ad groupby group_names groups reference categorical_method pts =
     (case get_groups_order groups group_names reference of
        Inl e \<Rightarrow> Inl e
      | Inr groups_order \<Rightarrow>
         (case map_of (obs ad) groupby of
            None \<Rightarrow> Inl KeyError
          | Some groups_values \<Rightarrow>
             (case non_numerical_columns ad of
                None \<Rightarrow> Inl KeyError
              | Some features \<Rightarrow>
                  features_loop chi2 ad groupby group_names groups_order groups_values reference
                    categorical_method pts features
                    \<lparr>categorical_names = [], categorical_scores = [], categorical_pvals = [],
                     categorical_logfoldchanges = [], categorical_pts = []\<rparr>)))"

text \<open>The features the outer loop does not skip, in order.\<close>

definition kept_features :: "string \<Rightarrow> string list \<Rightarrow> string list" where
  "kept_features groupby features =
     filter (\<lambda>feature. \<not> (feature = groupby \<or> ''ehrapycat_'' @ feature = groupby
                          \<or> feature = ''ehrapycat_'' @ groupby)) features"

text \<open>
  An instance of the test primitive for the examples below: its statistic is the count
  in the first cell of the table, its p-value the parameter it is given.
\<close>

definition first_cell :: "nat list list \<Rightarrow> real \<Rightarrow> real \<times> real" where
  "first_cell table lam = (real (hd (hd table)), lam)"

section \<open>Arrays and tables\<close>

text \<open>
  A cell of a result array is a float, a string (feature names) or the missing value
  pandas fills in. A plain two-dimensional array is a list of rows of one width; a
  structured (record) array is a list of named columns of one length, with distinct
  names.
\<close>

datatype cell = Num real | Str string | NaN

type_synonym 'a recarray = "(string \<times> 'a list) list"

datatype array = NdArray "cell list list" | RecArray "cell recarray"

text \<open>\<^verbatim>\<open>len(values)\<close>: the number of rows, of records for a structured array.\<close>

fun len :: "array \<Rightarrow> nat" where
  "len (NdArray rows) = length rows"
| "len (RecArray []) = 0"
| "len (RecArray ((name, col) # cols)) = length col"













section \<open>ResultStore: \<^verbatim>\<open>_merge_arrays\<close> and \<^verbatim>\<open>_save_rank_features_result\<close>\<close>


text \<open>
  A value stored under \<^verbatim>\<open>adata.uns[key_added]\<close>: the \<^verbatim>\<open>"params"\<close> dictionary or a result
  array. Dictionaries are association lists in insertion order, with distinct keys.
\<close>

datatype field = Params "(string \<times> string) list" | Arr array

type_synonym results = "(string \<times> field) list"

type_synonym uns = "(string \<times> results) list"



section \<open>PValueAdjuster: \<^verbatim>\<open>_adjust_pvalues\<close>\<close>

text \<open>
  The function allocates its result and writes into it column by column, so it is
  modelled over an explicit store of record arrays: an address is an index into the
  store, and allocation appends. The p-value arrays hold floats, idealised as reals.
\<close>

type_synonym heap = "real recarray list"

definition method_map :: "(string \<times> string) list" where
  "method_map = [(''benjamini-hochberg'', ''fdr_bh''), (''bonferroni'', ''bonferroni'')]"

text \<open>\<^verbatim>\<open>np.ones_like(pvals)\<close>: a new array of the same fields and length, filled with ones.\<close>

definition ones_like :: "real recarray \<Rightarrow> real recarray" where
  "ones_like a = map (\<lambda>(name, col). (name, replicate (length col) 1)) a"

text \<open>
  Assigning to a whole column, \<^verbatim>\<open>a[name] = new\<close>: numpy takes a value of the column's
  length, repeats a single value, and refuses any other length.
\<close>

definition assign_column :: "'a list \<Rightarrow> 'a list \<Rightarrow> error + 'a list" where
  "assign_column col new =
     (if length new = length col then Inr new
      else if length new = 1 then Inr (replicate (length col) (hd new))
      else Inl ValueError)"

text \<open>
  The loop \<^verbatim>\<open>for group in pvals.dtype.names\<close>. The correction itself is statsmodels'
  \<^verbatim>\<open>multipletests\<close>, a parameter of the model that maps a column of p-values and a method
  name to the corrected column (the second component of what the library returns).
  The store is returned also when the loop raises.
\<close>

fun adjust_loop ::
  "(real list \<Rightarrow> string \<Rightarrow> real list) \<Rightarrow> string \<Rightarrow> nat \<Rightarrow> nat \<Rightarrow> string list \<Rightarrow> heap
     \<Rightarrow> heap \<times> error option" where
  "adjust_loop multipletests corr_method pvals pvals_adj [] h = (h, None)"
| "adjust_loop multipletests corr_method pvals pvals_adj (grp # rest) h =
     (case map_of (h ! pvals) grp of
        None \<Rightarrow> (h, Some ValueError)
      | Some group_pvals \<Rightarrow>
          (case map_of method_map corr_method of
             None \<Rightarrow> (h, Some KeyError)
           | Some method \<Rightarrow>
               (case map_of (h ! pvals_adj) grp of
                  None \<Rightarrow> (h, Some ValueError)
                | Some col \<Rightarrow>
                    (case assign_column col (multipletests group_pvals method) of
                       Inl e \<Rightarrow> (h, Some e)
                     | Inr col' \<Rightarrow>
                         adjust_loop multipletests corr_method pvals pvals_adj rest
                           (h[pvals_adj := AList.update grp col' (h ! pvals_adj)])))))"

definition adjust_pvalues ::
  "(real list \<Rightarrow> string \<Rightarrow> real list) \<Rightarrow> heap \<Rightarrow> nat \<Rightarrow> string \<Rightarrow> heap \<times> (error + nat)" where
  "adjust_pvalues multipletests h pvals corr_method =
     (let pvals_adj = length h;
          h1 = h @ [ones_like (h ! pvals)]
      in case adjust_loop multipletests corr_method pvals pvals_adj (map fst (h ! pvals)) h1 of
           (h2, Some e) \<Rightarrow> (h2, Inl e)
         | (h2, None) \<Rightarrow> (h2, Inr pvals_adj))"

text \<open>
  The Bonferroni correction as \<^verbatim>\<open>multipletests\<close> computes it for the method name
  \<^verbatim>\<open>"bonferroni"\<close>: every p-value times the number of tests, a product above 1 replaced
  by 1.
\<close>

definition bonferroni :: "real list \<Rightarrow> real list" where
  "bonferroni ps = map (\<lambda>p. if p * real (length ps) > 1 then 1 else p * real (length ps)) ps"

section \<open>ResultSorter: \<^verbatim>\<open>_sort_features\<close>\<close>

text \<open>
  \<^verbatim>\<open>np.argsort\<close>: the positions of a sequence in ascending order of their values. Equal
  values are kept in their order of appearance here; numpy's default sort leaves their
  order open, and the properties below hold for any order of ties.
\<close>

definition argsort :: "'a::linorder list \<Rightarrow> nat list" where
  "argsort xs = map snd (sort_key fst (zip xs [0..<length xs]))"

text \<open>
  On a column of cells: floats are ordered by value with missing values last, strings
  lexicographically, and a column mixing strings with floats cannot be compared.
\<close>

fun is_float :: "cell \<Rightarrow> bool" where
  "is_float (Str s) = False"
| "is_float c = True"

fun is_str :: "cell \<Rightarrow> bool" where
  "is_str (Str s) = True"
| "is_str c = False"

fun float_key :: "cell \<Rightarrow> bool \<times> real" where
  "float_key (Num r) = (False, r)"
| "float_key c = (True, 0)"

fun str_key :: "cell \<Rightarrow> string" where
  "str_key (Str s) = s"
| "str_key c = []"

definition argsort_cells :: "cell list \<Rightarrow> error + nat list" where
  "argsort_cells col =
     (if list_all is_float col then Inr (argsort (map float_key col))
      else if list_all is_str col then Inr (argsort (map str_key col))
      else Inl TypeError)"

text \<open>\<^verbatim>\<open>col[sorted_indexes]\<close>: the entries at the given positions; a position past the end raises.\<close>

definition take_indices :: "'a list \<Rightarrow> nat list \<Rightarrow> error + 'a list" where
  "take_indices col idx =
     (if list_all (\<lambda>i. i < length col) idx then Inr (map (\<lambda>i. col ! i) idx) else Inl IndexError)"

text \<open>
  The assignment \<^verbatim>\<open>adata.uns[key_added][key][group] = adata.uns[key_added][key][group][sorted_indexes]\<close>
  on one stored value. A dictionary has no such entry or holds a string there, and a
  plain array cannot be indexed by a field name.
\<close>

definition sort_field :: "field \<Rightarrow> string \<Rightarrow> nat list \<Rightarrow> error + field" where
  "sort_field v grp sorted_indexes =
     (case v of
        Params d \<Rightarrow> (case map_of d grp of None \<Rightarrow> Inl KeyError | Some _ \<Rightarrow> Inl TypeError)
      | Arr (NdArray rows) \<Rightarrow> Inl IndexError
      | Arr (RecArray cols) \<Rightarrow>
          (case map_of cols grp of
             None \<Rightarrow> Inl ValueError
           | Some col \<Rightarrow>
               (case take_indices col sorted_indexes of
                  Inl e \<Rightarrow> Inl e
                | Inr taken \<Rightarrow>
                    (case assign_column col taken of
                       Inl e \<Rightarrow> Inl e
                     | Inr col' \<Rightarrow> Inr (Arr (RecArray (AList.update grp col' cols)))))))"

text \<open>The loop \<^verbatim>\<open>for key in adata.uns[key_added].keys()\<close> for one group.\<close>

fun sort_keys :: "nat list \<Rightarrow> string \<Rightarrow> results \<Rightarrow> error + results" where
  "sort_keys sorted_indexes grp [] = Inr []"
| "sort_keys sorted_indexes grp ((key, v) # rest) =
     (if key = ''params''
      then (case sort_keys sorted_indexes grp rest of
              Inl e \<Rightarrow> Inl e
            | Inr rest' \<Rightarrow> Inr ((key, v) # rest'))
      else (case sort_field v grp sorted_indexes of
              Inl e \<Rightarrow> Inl e
            | Inr v' \<Rightarrow>
                (case sort_keys sorted_indexes grp rest of
                   Inl e \<Rightarrow> Inl e
                 | Inr rest' \<Rightarrow> Inr ((key, v') # rest'))))"

text \<open>
  The loop \<^verbatim>\<open>for group in pvals_adj.dtype.names\<close>. \<^verbatim>\<open>pvals_adj\<close> is the array stored under
  \<^verbatim>\<open>"pvals_adj"\<close> itself, so each pass reads the column as the passes before left it.
\<close>

fun sort_groups :: "string list \<Rightarrow> results \<Rightarrow> error + results" where
  "sort_groups [] res = Inr res"
| "sort_groups (grp # rest) res =
     (case map_of res ''pvals_adj'' of
        Some (Arr (RecArray pvals_adj)) \<Rightarrow>
          (case map_of pvals_adj grp of
             None \<Rightarrow> Inl ValueError
           | Some group_pvals \<Rightarrow>
               (case argsort_cells group_pvals of
                  Inl e \<Rightarrow> Inl e
                | Inr sorted_indexes \<Rightarrow>
                    (case sort_keys sorted_indexes grp res of
                       Inl e \<Rightarrow> Inl e
                     | Inr res' \<Rightarrow> sort_groups rest res')))
      | _ \<Rightarrow> Inl KeyError)"

definition sort_features :: "uns \<Rightarrow> string \<Rightarrow> error + uns" where
  "sort_features adata_uns key_added =
     (case map_of adata_uns key_added of
        None \<Rightarrow> Inr adata_uns
      | Some res \<Rightarrow>
          (case map_of res ''pvals_adj'' of
             None \<Rightarrow> Inl KeyError
           | Some (Params d) \<Rightarrow> Inl AttributeError
           | Some (Arr (NdArray rows)) \<Rightarrow> Inl TypeError
           | Some (Arr (RecArray pvals_adj)) \<Rightarrow>
               (case sort_groups (map fst pvals_adj) res of
                  Inl e \<Rightarrow> Inl e
                | Inr res' \<Rightarrow> Inr (AList.update key_added res' adata_uns))))"

section \<open>AnnotationAggregator: \<^verbatim>\<open>_medcat.py\<close>\<close>

text \<open>
  What the annotator returns for one row of text: under \<^verbatim>\<open>"entities"\<close>, a dictionary
  whose key \<^verbatim>\<open>"tokens"\<close> is skipped and whose other keys hold one entity each, with the
  attributes the flattening keeps; \<open>status\<close> is \<^verbatim>\<open>entity["meta_anns"]["Status"]["value"]\<close>.
\<close>

record raw_entity =
  raw_pretty_name :: string
  raw_cui :: string
  raw_type_ids :: "string list"
  raw_types :: "string list"
  status :: string

datatype entities_item = Tokens | Entity nat raw_entity

text \<open>One flattened record, \<^verbatim>\<open>single_entity\<close>, which is also one row of the table.\<close>

record single_entity =
  row_nr :: int
  pretty_name :: string
  cui :: string
  type_ids :: "string list"
  types :: "string list"
  meta_anns :: string

fun flatten_entities :: "int \<Rightarrow> entities_item list \<Rightarrow> single_entity list" where
  "flatten_entities row_id [] = []"
| "flatten_entities row_id (Tokens # rest) = flatten_entities row_id rest"
| "flatten_entities row_id (Entity entity_id entity # rest) =
     \<lparr>row_nr = row_id, pretty_name = raw_pretty_name entity, cui = raw_cui entity,
      type_ids = raw_type_ids entity, types = raw_types entity, meta_anns = status entity\<rparr>
     # flatten_entities row_id rest"

text \<open>The flattened dictionary, keyed by \<^verbatim>\<open>entry_nr\<close> = 0, 1, ..., as the list of its values.\<close>

fun flatten_annotated_results :: "(int \<times> entities_item list) list \<Rightarrow> single_entity list" where
  "flatten_annotated_results [] = []"
| "flatten_annotated_results ((row_id, entities) # rest) =
     flatten_entities row_id entities @ flatten_annotated_results rest"

text \<open>
  \<^verbatim>\<open>df.drop_duplicates(subset=["cui", "row_nr", "meta_anns"])\<close>: a new table that keeps
  the first row of every triple; the table it is called on is left as it is.
\<close>

fun drop_duplicates_from :: "(string \<times> int \<times> string) list \<Rightarrow> single_entity list \<Rightarrow> single_entity list" where
  "drop_duplicates_from seen [] = []"
| "drop_duplicates_from seen (e # es) =
     (if (cui e, row_nr e, meta_anns e) \<in> set seen then drop_duplicates_from seen es
      else e # drop_duplicates_from ((cui e, row_nr e, meta_anns e) # seen) es)"

definition drop_duplicates :: "single_entity list \<Rightarrow> single_entity list" where
  "drop_duplicates df = drop_duplicates_from [] df"

definition annotated_results_to_df :: "single_entity list \<Rightarrow> single_entity list" where
  "annotated_results_to_df flattened_results =
     (let df = flattened_results;
          dropped = drop_duplicates df
      in df)"

text \<open>
  \<^verbatim>\<open>annotate_text\<close> from the annotator's output on: flatten, build the table, sort by
  row number (rows of one row number in their order of appearance) and renumber. A
  table built from no record has no column \<^verbatim>\<open>row_nr\<close> to sort by. The result is what
  is stored under \<^verbatim>\<open>adata.uns[key_added]\<close>.
\<close>

definition annotate_text :: "(int \<times> entities_item list) list \<Rightarrow> error + single_entity list" where
  "annotate_text results =
     (let flattened_res = flatten_annotated_results results;
          df = annotated_results_to_df flattened_res
      in if df = [] then Inl KeyError else Inr (sort_key row_nr df))"

text \<open>
  thefuzz's \<^verbatim>\<open>process.extractOne(query, choices, score_cutoff)\<close> over a similarity
  \<open>scorer\<close> with values from 0 to 100, a parameter of the model: the first choice of
  the highest score among those that reach the cutoff, with its score, or nothing.
\<close>

fun max_first :: "'a \<times> nat \<Rightarrow> ('a \<times> nat) list \<Rightarrow> 'a \<times> nat" where
  "max_first best [] = best"
| "max_first best (x # xs) = max_first (if snd best < snd x then x else best) xs"

definition extractOne ::
  "(string \<Rightarrow> string \<Rightarrow> nat) \<Rightarrow> string \<Rightarrow> string list \<Rightarrow> nat \<Rightarrow> (string \<times> nat) option" where
  "extractOne scorer query choices score_cutoff =
     (case filter (\<lambda>(choice, score). score_cutoff \<le> score)
                  (map (\<lambda>choice. (choice, scorer query choice)) choices) of
        [] \<Rightarrow> None
      | x # xs \<Rightarrow> Some (max_first x xs))"

text \<open>\<^verbatim>\<open>Series.unique()\<close>: the distinct values in their order of first appearance.\<close>

definition unique :: "'a list \<Rightarrow> 'a list" where
  "unique xs = rev (remdups (rev xs))"

text \<open>
  The loop of \<^verbatim>\<open>_check_valid_name\<close> over the requested names, on the column
  \<^verbatim>\<open>df["pretty_name"]\<close>. Unpacking the result of \<^verbatim>\<open>extractOne\<close> into \<^verbatim>\<open>new_name, _\<close> raises
  when there is no result. After the loop \<^verbatim>\<open>new_name\<close> is the last suggested name.
  A table built from no record has no column \<^verbatim>\<open>pretty_name\<close> to look a name up in.
\<close>

fun check_loop ::
  "(string \<Rightarrow> string \<Rightarrow> nat) \<Rightarrow> string list \<Rightarrow> string list \<Rightarrow> string list \<times> string list
     \<Rightarrow> error + string list \<times> string list" where
  "check_loop scorer column [] (invalid_names, suggested_names) =
     Inr (invalid_names, suggested_names)"
| "check_loop scorer column (nm # rest) (invalid_names, suggested_names) =
     (if nm \<notin> set column
      then (case extractOne scorer nm (unique column) 50 of
              None \<Rightarrow> Inl TypeError
            | Some (new_name, score) \<Rightarrow>
                check_loop scorer column rest (invalid_names @ [nm], suggested_names @ [new_name]))
      else check_loop scorer column rest (invalid_names, suggested_names))"

definition check_valid_name ::
  "(string \<Rightarrow> string \<Rightarrow> nat) \<Rightarrow> single_entity list \<Rightarrow> string list \<Rightarrow> error + unit" where
  "check_valid_name scorer df name =
     (if df = [] \<and> name \<noteq> [] then Inl KeyError
      else case check_loop scorer (map pretty_name df) name ([], []) of
        Inl e \<Rightarrow> Inl e
      | Inr (invalid_names, suggested_names) \<Rightarrow>
          if invalid_names \<noteq> []
          then (if suggested_names \<noteq> []
                then Inl (EntitiyNotFoundError
                            (Did_not_find_suggest invalid_names (last suggested_names)))
                else Inl (EntitiyNotFoundError (Did_not_find invalid_names)))
          else Inr ())"

section \<open>Notions used to state the properties of the ResultSorter\<close>

text \<open>
  Reordering the columns of a structured array: a column whose name has a list of
  positions takes its entries from these positions, the others stay.
\<close>

definition permute_columns :: "(string \<Rightarrow> nat list option) \<Rightarrow> 'a recarray \<Rightarrow> 'a recarray" where
  "permute_columns idx cols =
     map (\<lambda>(name, col). (name, case idx name of None \<Rightarrow> col
                                   | Some sorted_indexes \<Rightarrow> map (\<lambda>i. col ! i) sorted_indexes)) cols"

text \<open>The same on every stored array but the value under \<^verbatim>\<open>"params"\<close>.\<close>

definition permute_field :: "(string \<Rightarrow> nat list option) \<Rightarrow> string \<Rightarrow> field \<Rightarrow> field" where
  "permute_field idx key v =
     (if key = ''params'' then v
      else (case v of
              Arr (RecArray cols) \<Rightarrow> Arr (RecArray (permute_columns idx cols))
            | _ \<Rightarrow> v))"

definition permute_results :: "(string \<Rightarrow> nat list option) \<Rightarrow> results \<Rightarrow> results" where
  "permute_results idx res = map (\<lambda>(key, v). (key, permute_field idx key v)) res"

text \<open>The list of positions for one group and none for the others.\<close>

definition one_group :: "string \<Rightarrow> nat list \<Rightarrow> string \<Rightarrow> nat list option" where
  "one_group grp sorted_indexes = (\<lambda>g. if g = grp then Some sorted_indexes else None)"

text \<open>The positions that sort the column of a group in an array of adjusted p-values.\<close>

definition sorting_indexes :: "cell recarray \<Rightarrow> string \<Rightarrow> nat list option" where
  "sorting_indexes pvals_adj grp =
     map_option (\<lambda>group_pvals. argsort (map float_key group_pvals)) (map_of pvals_adj grp)"

text \<open>
  A stored result is aligned with its array of adjusted p-values when every value but
  the one under \<^verbatim>\<open>"params"\<close> is a structured array that has, for each group column of
  the adjusted p-values, a column of that name and length.
\<close>

definition aligned :: "cell recarray \<Rightarrow> results \<Rightarrow> bool" where
  "aligned pvals_adj res =
     list_all (\<lambda>(key, v). key = ''params'' \<or>
                 (case v of
                    Arr (RecArray cols) \<Rightarrow>
                      distinct (map fst cols) \<and>
                      list_all (\<lambda>(grp, group_pvals).
                                  case map_of cols grp of
                                    Some col \<Rightarrow> length col = length group_pvals
                                  | None \<Rightarrow> False) pvals_adj
                  | _ \<Rightarrow> False)) res"

section \<open>Properties of the GroupSelector\<close>

text \<open>
  C8 as stated fails. A reference that is not \<^verbatim>\<open>"rest"\<close>, not a member of the explicit
  subset and not one of the known group names is appended and then rejected by the
  check of the reference against the known groups, so there is no canonical output.
  An empty explicit subset has no first element to inspect and raises IndexError.
\<close>

theorem get_groups_order_rejects_unknown_reference_and_empty_subset:
  "get_groups_order (Strs [''icu'']) [''home'', ''icu'', ''ward''] ''hospice'' = Inl ValueError
   \<and> get_groups_order (Strs []) [''home'', ''icu'', ''ward''] ''home'' = Inl IndexError
   \<and> get_groups_order (Ints []) [''1'', ''2'', ''10''] ''1'' = Inl IndexError"
  by (simp add: get_groups_order_def)

text \<open>
  C8 as amended. For an explicit, non-empty sequence of groups and a reference that is
  not \<^verbatim>\<open>"rest"\<close>, is one of the known group names and is not among the listed groups (for
  a sequence of integers: not among their string forms), the canonical order is the
  listed groups followed by the reference as last element, and the reference occurs
  in it exactly once.
\<close>

theorem get_groups_order_appends_reference:
  assumes "reference \<noteq> ''rest''" and "reference \<in> set group_names"
  shows "(xs \<noteq> [] \<and> reference \<notin> set xs \<longrightarrow>
            get_groups_order (Strs xs) group_names reference = Inr (xs @ [reference])
            \<and> last (xs @ [reference]) = reference
            \<and> count_list (xs @ [reference]) reference = 1)
       \<and> (ns \<noteq> [] \<and> reference \<notin> set (map str_int ns) \<longrightarrow>
            get_groups_order (Ints ns) group_names reference = Inr (map str_int ns @ [reference])
            \<and> last (map str_int ns @ [reference]) = reference
            \<and> count_list (map str_int ns @ [reference]) reference = 1)"
  using assms by (simp add: get_groups_order_def)

theorem get_groups_order_appends_reference_witness:
  "get_groups_order (Strs [''icu'', ''ward'']) [''home'', ''icu'', ''ward''] ''home''
     = Inr [''icu'', ''ward'', ''home'']
   \<and> count_list [''icu'', ''ward'', ''home''] ''home'' = 1
   \<and> get_groups_order (Ints [2, 10]) [''1'', ''2'', ''10''] ''1'' = Inr [''2'', ''10'', ''1'']
   \<and> count_list [''2'', ''10'', ''1''] ''1'' = 1"
proof -
  have r1: "''home'' \<noteq> ''rest''" by simp
  have m1: "''home'' \<in> set [''home'', ''icu'', ''ward'']" by simp
  have r2: "''1'' \<noteq> ''rest''" by simp
  have m2: "''1'' \<in> set [''1'', ''2'', ''10'']" by simp
  have s: "str_int 2 = ''2''" "str_int 10 = ''10''" by (simp_all add: str_int_def)
  from get_groups_order_appends_reference [OF r1 m1, of "[''icu'', ''ward'']" "[]"]
  have a: "get_groups_order (Strs [''icu'', ''ward'']) [''home'', ''icu'', ''ward''] ''home''
             = Inr [''icu'', ''ward'', ''home'']
           \<and> count_list [''icu'', ''ward'', ''home''] ''home'' = 1"
    by simp
  from get_groups_order_appends_reference [OF r2 m2, of "[]" "[2, 10]"]
  have b: "get_groups_order (Ints [2, 10]) [''1'', ''2'', ''10''] ''1'' = Inr [''2'', ''10'', ''1'']
           \<and> count_list [''2'', ''10'', ''1''] ''1'' = 1"
    by (simp add: s)
  from a b show ?thesis by simp
qed

section \<open>Properties of the CategoricalTester\<close>

lemma groups_loop_eq:
  assumes "\<And>g. g \<in> set gs \<Longrightarrow> test g = Inr (t g)"
  shows "groups_loop test groups_order gs (scores, pvals) =
     Inr (scores @ map (\<lambda>g. fst (t g)) (filter (\<lambda>g. g \<in> set groups_order) gs),
          pvals @ map (\<lambda>g. snd (t g)) (filter (\<lambda>g. g \<in> set groups_order) gs))"
  using assms by (induction gs arbitrary: scores pvals) (auto split: sum.splits prod.splits)

text \<open>
  The closed form of the outer loop: one row per feature that is not skipped; the rows
  of names, fold changes and percentages have one entry per known group, the rows of
  scores and p-values one entry per known group that is in the canonical order, in the
  order of the known groups.
\<close>

lemma features_loop_eq:
  assumes lam: "map_of tests_to_lambdas categorical_method = Some lam"
    and cols: "\<And>f. f \<in> set (kept_features groupby features) \<Longrightarrow> map_of (X ad) f = Some (fv f)"
  shows "features_loop chi2 ad groupby group_names groups_order groups_values reference
           categorical_method pts features acc =
         Inr (acc\<lparr>categorical_names := categorical_names acc @
                    map (\<lambda>f. replicate (length group_names) f) (kept_features groupby features),
                  categorical_scores := categorical_scores acc @
                    map (\<lambda>f. map (\<lambda>g. fst (chi2 (contingency_table groups_values (fv f) groups_order reference g) lam))
                                (filter (\<lambda>g. g \<in> set groups_order) group_names))
                        (kept_features groupby features),
                  categorical_pvals := categorical_pvals acc @
                    map (\<lambda>f. map (\<lambda>g. snd (chi2 (contingency_table groups_values (fv f) groups_order reference g) lam))
                                (filter (\<lambda>g. g \<in> set groups_order) group_names))
                        (kept_features groupby features),
                  categorical_logfoldchanges := categorical_logfoldchanges acc @
                    map (\<lambda>f. replicate (length group_names) 1) (kept_features groupby features),
                  categorical_pts := categorical_pts acc @
                    (if pts then map (\<lambda>f. replicate (length group_names) 1) (kept_features groupby features) else [])\<rparr>)"
  using cols
proof (induction features arbitrary: acc)
  case Nil
  then show ?case by (simp add: kept_features_def)
next
  case (Cons feature rest)
  show ?case
  proof (cases "feature = groupby \<or> ''ehrapycat_'' @ feature = groupby \<or> feature = ''ehrapycat_'' @ groupby")
    case True
    then have k: "kept_features groupby (feature # rest) = kept_features groupby rest"
      by (simp add: kept_features_def)
    from True Cons show ?thesis by (simp add: k)
  next
    case False
    then have k: "kept_features groupby (feature # rest) = feature # kept_features groupby rest"
      by (simp add: kept_features_def)
    have c: "map_of (X ad) feature = Some (fv feature)" using Cons.prems k by simp
    have gl: "groups_loop (group_test chi2 groups_values (fv feature) groups_order reference categorical_method)
                groups_order group_names ([], []) =
              Inr ([] @ map (\<lambda>g. fst (chi2 (contingency_table groups_values (fv feature) groups_order reference g) lam))
                       (filter (\<lambda>g. g \<in> set groups_order) group_names),
                   [] @ map (\<lambda>g. snd (chi2 (contingency_table groups_values (fv feature) groups_order reference g) lam))
                       (filter (\<lambda>g. g \<in> set groups_order) group_names))"
      by (rule groups_loop_eq) (simp add: group_test_def lam)
    have ih: "\<And>acc'. features_loop chi2 ad groupby group_names groups_order groups_values reference
           categorical_method pts rest acc' = Inr (acc'\<lparr>categorical_names := categorical_names acc' @
                    map (\<lambda>f. replicate (length group_names) f) (kept_features groupby rest),
                  categorical_scores := categorical_scores acc' @
                    map (\<lambda>f. map (\<lambda>g. fst (chi2 (contingency_table groups_values (fv f) groups_order reference g) lam))
                                (filter (\<lambda>g. g \<in> set groups_order) group_names))
                        (kept_features groupby rest),
                  categorical_pvals := categorical_pvals acc' @
                    map (\<lambda>f. map (\<lambda>g. snd (chi2 (contingency_table groups_values (fv f) groups_order reference g) lam))
                                (filter (\<lambda>g. g \<in> set groups_order) group_names))
                        (kept_features groupby rest),
                  categorical_logfoldchanges := categorical_logfoldchanges acc' @
                    map (\<lambda>f. replicate (length group_names) 1) (kept_features groupby rest),
                  categorical_pts := categorical_pts acc' @
                    (if pts then map (\<lambda>f. replicate (length group_names) 1) (kept_features groupby rest) else [])\<rparr>)"
      using Cons.IH Cons.prems k by simp
    show ?thesis using False by (simp add: c gl ih k)
  qed
qed

text \<open>
  C1, at a concrete input. Three observations in the groups A, B, C with feature
  values 0, 1, 1; the groups A and B are selected and the reference is \<^verbatim>\<open>"rest"\<close>. In
  the table for group A the observation of the unselected group C is counted, on the
  side of A: the column of the group itself sums to 2 although one observation belongs
  to A, and the table counts 3 observations although 2 belong to the selected groups.
\<close>

theorem rest_table_counts_unselected_observations:
  "get_groups_order (Strs [''A'', ''B'']) [''A'', ''B'', ''C''] ''rest'' = Inr [''A'', ''B'']
   \<and> rest_mask [''A'', ''B'', ''C''] [''A'', ''B''] ''A'' = [False, True, False]
   \<and> contingency_table [''A'', ''B'', ''C''] [0::nat, 1, 1] [''A'', ''B''] ''rest'' ''A''
       = [[1, 0], [1, 1]]
   \<and> sum_list (map hd (contingency_table [''A'', ''B'', ''C''] [0::nat, 1, 1] [''A'', ''B''] ''rest'' ''A'')) = 2
   \<and> count_list [''A'', ''B'', ''C''] ''A'' = 1
   \<and> sum_list (concat (contingency_table [''A'', ''B'', ''C''] [0::nat, 1, 1] [''A'', ''B''] ''rest'' ''A'')) = 3
   \<and> length (filter (\<lambda>g. g \<in> set [''A'', ''B'']) [''A'', ''B'', ''C'']) = 2"
  by (simp add: get_groups_order_def contingency_table_def crosstab_def rest_mask_def)

text \<open>
  C3, at a concrete input. With the known groups A, B, C, the selection A, B, the
  reference \<^verbatim>\<open>"rest"\<close>, one tested feature and percentages requested, the rows of names,
  fold changes and percentages have three entries and the rows of scores and
  p-values two, whatever the test primitive returns: the five arrays do not have one
  shape, and the canonical order has two groups.
\<close>

theorem subset_gives_arrays_of_different_widths:
  "\<exists>res. evaluate_categorical_features chi2
            \<lparr>obs = [(''ward'', [''A'', ''B'', ''C''])],
             non_numerical_columns = Some [''ward'', ''diag''],
             X = [(''diag'', [0::nat, 1, 1])]\<rparr>
            ''ward'' [''A'', ''B'', ''C''] (Strs [''A'', ''B'']) ''rest'' ''g-test'' True = Inr res
     \<and> map length (categorical_names res) = [3]
     \<and> map length (categorical_scores res) = [2]
     \<and> map length (categorical_pvals res) = [2]
     \<and> map length (categorical_logfoldchanges res) = [3]
     \<and> map length (categorical_pts res) = [3]"
  by (simp add: evaluate_categorical_features_def get_groups_order_def group_test_def
      tests_to_lambdas_def case_prod_beta)

text \<open>
  C4 as stated fails. With the known groups A, B, C and the request B, A the canonical
  order is B, A, but the first score is the one of group A: with the test primitive
  \<open>first_cell\<close> the row of scores is 1, 0, while the score of B, the first group of the
  canonical order, is 0 and the score of A is 1.
\<close>

theorem scores_not_in_canonical_order:
  "get_groups_order (Strs [''B'', ''A'']) [''A'', ''B'', ''C''] ''rest'' = Inr [''B'', ''A'']
   \<and> evaluate_categorical_features first_cell
         \<lparr>obs = [(''ward'', [''A'', ''B'', ''C''])],
          non_numerical_columns = Some [''ward'', ''diag''],
          X = [(''diag'', [0::nat, 1, 1])]\<rparr>
         ''ward'' [''A'', ''B'', ''C''] (Strs [''B'', ''A'']) ''rest'' ''g-test'' False
       = Inr \<lparr>categorical_names = [[''diag'', ''diag'', ''diag'']],
              categorical_scores = [[1, 0]], categorical_pvals = [[0, 0]],
              categorical_logfoldchanges = [[1, 1, 1]], categorical_pts = []\<rparr>
   \<and> fst (first_cell (contingency_table [''A'', ''B'', ''C''] [0::nat, 1, 1]
                          [''B'', ''A''] ''rest'' ''B'') 0) = 0
   \<and> fst (first_cell (contingency_table [''A'', ''B'', ''C''] [0::nat, 1, 1]
                          [''B'', ''A''] ''rest'' ''A'') 0) = 1
   \<and> [[1::real, 0]]
       \<noteq> [[fst (first_cell (contingency_table [''A'', ''B'', ''C''] [0::nat, 1, 1]
                                [''B'', ''A''] ''rest'' ''B'') 0),
             fst (first_cell (contingency_table [''A'', ''B'', ''C''] [0::nat, 1, 1]
                                [''B'', ''A''] ''rest'' ''A'') 0)]]"
  by (simp add: evaluate_categorical_features_def get_groups_order_def group_test_def
      tests_to_lambdas_def contingency_table_def crosstab_def rest_mask_def first_cell_def)

text \<open>
  C4 as amended. When the selector returns the canonical order and the data the tester
  reads is there, the tester returns, and for every tested feature the i-th entry of
  the row of scores, and of the row of p-values, is the result of the test for the
  i-th of the known groups that are in the canonical order, taken in the order of the
  known groups.
\<close>

theorem scores_follow_known_group_order:
  assumes "get_groups_order groups group_names reference = Inr groups_order"
    and "map_of (obs ad) groupby = Some groups_values"
    and "non_numerical_columns ad = Some features"
    and "map_of tests_to_lambdas categorical_method = Some lam"
    and "\<And>f. f \<in> set (kept_features groupby features) \<Longrightarrow> map_of (X ad) f = Some (fv f)"
  shows "\<exists>res. evaluate_categorical_features chi2 ad groupby group_names groups reference
                 categorical_method pts = Inr res
     \<and> categorical_scores res =
         map (\<lambda>f. map (\<lambda>g. fst (chi2 (contingency_table groups_values (fv f) groups_order reference g) lam))
                     (filter (\<lambda>g. g \<in> set groups_order) group_names))
             (kept_features groupby features)
     \<and> categorical_pvals res =
         map (\<lambda>f. map (\<lambda>g. snd (chi2 (contingency_table groups_values (fv f) groups_order reference g) lam))
                     (filter (\<lambda>g. g \<in> set groups_order) group_names))
             (kept_features groupby features)"
  using assms(1-3) features_loop_eq [OF assms(4), of groupby features ad fv, OF assms(5)]
  by (simp add: evaluate_categorical_features_def)

theorem scores_follow_known_group_order_witness:
  "\<exists>res. evaluate_categorical_features first_cell
            \<lparr>obs = [(''ward'', [''A'', ''B'', ''C''])],
             non_numerical_columns = Some [''ward'', ''diag''],
             X = [(''diag'', [0::nat, 1, 1])]\<rparr>
            ''ward'' [''A'', ''B'', ''C''] (Strs [''B'', ''A'']) ''rest'' ''chi-square'' False = Inr res
     \<and> categorical_scores res = [[1, 0]]
     \<and> categorical_pvals res = [[1, 1]]"
proof -
  let ?ad = "\<lparr>obs = [(''ward'', [''A'', ''B'', ''C''])],
             non_numerical_columns = Some [''ward'', ''diag''],
             X = [(''diag'', [0::nat, 1, 1])]\<rparr>"
  have 1: "get_groups_order (Strs [''B'', ''A'']) [''A'', ''B'', ''C''] ''rest'' = Inr [''B'', ''A'']"
    by (simp add: get_groups_order_def)
  have 2: "map_of (obs ?ad) ''ward'' = Some [''A'', ''B'', ''C'']" by simp
  have 3: "non_numerical_columns ?ad = Some [''ward'', ''diag'']" by simp
  have 4: "map_of tests_to_lambdas ''chi-square'' = Some 1" by (simp add: tests_to_lambdas_def)
  have k: "kept_features ''ward'' [''ward'', ''diag''] = [''diag'']" by (simp add: kept_features_def)
  have 5: "\<And>f. f \<in> set (kept_features ''ward'' [''ward'', ''diag'']) \<Longrightarrow>
             map_of (X ?ad) f = Some ((\<lambda>f. [0::nat, 1, 1]) f)"
    by (simp add: k)
  from scores_follow_known_group_order [OF 1 2 3 4 5, of first_cell False]
  show ?thesis
    by (simp add: k contingency_table_def crosstab_def rest_mask_def first_cell_def)
qed

section \<open>Properties of the AnnotationAggregator\<close>

text \<open>
  C2, at a concrete input. The annotator finds the same concept twice, with the same
  status, in the text of row 0. The table that \<^verbatim>\<open>annotate_text\<close> stores has two rows
  with the same triple of concept identifier, row and status: the table without the
  repeats is computed by \<^verbatim>\<open>drop_duplicates\<close> and not kept.
\<close>

theorem annotate_text_keeps_duplicates:
  "\<exists>table. annotate_text
              [(0, [Entity 0 \<lparr>raw_pretty_name = ''Diabetes'', raw_cui = ''C0011849'',
                              raw_type_ids = [''T047''], raw_types = [''Disease or Syndrome''],
                              status = ''Affirmed''\<rparr>,
                    Entity 1 \<lparr>raw_pretty_name = ''Diabetes'', raw_cui = ''C0011849'',
                              raw_type_ids = [''T047''], raw_types = [''Disease or Syndrome''],
                              status = ''Affirmed''\<rparr>,
                    Tokens])] = Inr table
     \<and> length table = 2
     \<and> \<not> distinct (map (\<lambda>e. (cui e, row_nr e, meta_anns e)) table)
     \<and> length (drop_duplicates table) = 1"
  by (simp add: annotate_text_def annotated_results_to_df_def drop_duplicates_def)

text \<open>
  C9, at a concrete input. The table has the one pretty name Diabetes, the requested
  name is Asthma, and no choice reaches the similarity 50. The call fails, but with
  the TypeError of unpacking the missing result of \<^verbatim>\<open>extractOne\<close>, before any message
  is built.
\<close>

theorem check_valid_name_without_match_raises_TypeError:
  "extractOne (\<lambda>query choice. 0) ''Asthma'' [''Diabetes''] 50 = None
   \<and> check_valid_name (\<lambda>query choice. 0)
        [\<lparr>row_nr = 0, pretty_name = ''Diabetes'', cui = ''C0011849'', type_ids = [''T047''],
          types = [''Disease or Syndrome''], meta_anns = ''Affirmed''\<rparr>]
        [''Asthma''] = Inl TypeError"
  by (simp add: check_valid_name_def extractOne_def unique_def)

section \<open>Properties of the PValueAdjuster\<close>

lemma assign_column_length: "assign_column col new = Inr col' \<Longrightarrow> length col' = length col"
  by (auto simp: assign_column_def split: if_splits)

lemma update_keeps_names: "map_of a g = Some c \<Longrightarrow> map fst (AList.update g c' a) = map fst a"
  by (induction a) (auto split: if_splits)

lemma update_keeps_lengths:
  "map_of a g = Some c \<Longrightarrow> length c' = length c \<Longrightarrow>
   map (\<lambda>(name, col). length col) (AList.update g c' a) = map (\<lambda>(name, col). length col) a"
  by (induction a) (auto split: if_splits)

text \<open>
  What the loop leaves alone, whether it returns or raises: the size of the store,
  every array but the one it writes to, and the field names and column lengths of
  that one.
\<close>

lemma adjust_loop_frame:
  "adjust_loop mt cm pvals adj gs h = (h', r) \<Longrightarrow>
   length h' = length h \<and> (\<forall>a. a \<noteq> adj \<longrightarrow> h' ! a = h ! a)
   \<and> map fst (h' ! adj) = map fst (h ! adj)
   \<and> map (\<lambda>(name, col). length col) (h' ! adj) = map (\<lambda>(name, col). length col) (h ! adj)"
proof (induction gs arbitrary: h)
  case Nil
  then show ?case by simp
next
  case (Cons g gs)
  show ?case
  proof (cases "\<exists>group_pvals meth col col'. map_of (h ! pvals) g = Some group_pvals
           \<and> map_of method_map cm = Some meth \<and> map_of (h ! adj) g = Some col
           \<and> assign_column col (mt group_pvals meth) = Inr col'")
    case False
    then have "adjust_loop mt cm pvals adj (g # gs) h = (h, r) \<and> h' = h"
      using Cons.prems by (auto split: option.splits sum.splits)
    then show ?thesis by simp
  next
    case True
    then obtain group_pvals meth col col' where
      s: "map_of (h ! pvals) g = Some group_pvals" "map_of method_map cm = Some meth"
         "map_of (h ! adj) g = Some col" "assign_column col (mt group_pvals meth) = Inr col'"
      by blast
    let ?h1 = "h[adj := AList.update g col' (h ! adj)]"
    have step: "adjust_loop mt cm pvals adj gs ?h1 = (h', r)"
      using Cons.prems s by simp
    note ih = Cons.IH [OF step]
    have len: "length col' = length col" using s(4) by (rule assign_column_length)
    show ?thesis
    proof (cases "adj < length h")
      case True
      have at: "?h1 ! adj = AList.update g col' (h ! adj)" using True by simp
      have other: "\<And>a. a \<noteq> adj \<Longrightarrow> ?h1 ! a = h ! a" by simp
      show ?thesis using ih other
        by (simp add: at update_keeps_names [OF s(3)] update_keeps_lengths [OF s(3) len])
    next
      case False
      then have "?h1 = h" by (simp add: list_update_beyond)
      then show ?thesis using ih by simp
    qed
  qed
qed

text \<open>
  When the meth is known and the correction returns as many values as it is given,
  the loop over fields of the input returns, and each field it visited holds the
  corrected values of the input's field of that name.
\<close>

lemma adjust_loop_result:
  assumes "map_of method_map cm = Some method" and "pvals < length h" and "adj < length h"
    and "pvals \<noteq> adj"
    and "\<And>g. g \<in> set gs \<Longrightarrow> \<exists>col c. map_of (h ! pvals) g = Some col \<and> map_of (h ! adj) g = Some c
            \<and> length c = length col \<and> length (mt col method) = length col"
  shows "\<exists>h'. adjust_loop mt cm pvals adj gs h = (h', None)
     \<and> (\<forall>g. map_of (h' ! adj) g =
            (if g \<in> set gs then map_option (\<lambda>col. mt col method) (map_of (h ! pvals) g)
             else map_of (h ! adj) g))"
  using assms(2-)
proof (induction gs arbitrary: h)
  case Nil
  then show ?case by simp
next
  case (Cons g gs)
  from Cons.prems(4) [of g] obtain col c where
    s: "map_of (h ! pvals) g = Some col" "map_of (h ! adj) g = Some c"
       "length c = length col" "length (mt col method) = length col"
    by auto
  have a: "assign_column c (mt col method) = Inr (mt col method)"
    using s by (simp add: assign_column_def)
  let ?h1 = "h[adj := AList.update g (mt col method) (h ! adj)]"
  have at: "?h1 ! adj = AList.update g (mt col method) (h ! adj)" using Cons.prems(2) by simp
  have pv: "?h1 ! pvals = h ! pvals" using Cons.prems(3) by simp
  have step: "adjust_loop mt cm pvals adj (g # gs) h = adjust_loop mt cm pvals adj gs ?h1"
    using s a assms(1) by simp
  have pre: "\<And>g'. g' \<in> set gs \<Longrightarrow> \<exists>col c. map_of (?h1 ! pvals) g' = Some col
            \<and> map_of (?h1 ! adj) g' = Some c
            \<and> length c = length col \<and> length (mt col method) = length col"
  proof -
    fix g' assume "g' \<in> set gs"
    then obtain col' c' where
      t: "map_of (h ! pvals) g' = Some col'" "map_of (h ! adj) g' = Some c'"
         "length c' = length col'" "length (mt col' method) = length col'"
      using Cons.prems(4) [of g'] by auto
    show "\<exists>col c. map_of (?h1 ! pvals) g' = Some col \<and> map_of (?h1 ! adj) g' = Some c
            \<and> length c = length col \<and> length (mt col method) = length col"
      using t s at pv by (cases "g' = g") (simp_all add: update_conv')
  qed
  have "\<exists>h'. adjust_loop mt cm pvals adj gs ?h1 = (h', None)
     \<and> (\<forall>g'. map_of (h' ! adj) g' =
            (if g' \<in> set gs then map_option (\<lambda>col. mt col method) (map_of (?h1 ! pvals) g')
             else map_of (?h1 ! adj) g'))"
    using Cons.prems(1-3) pre by (intro Cons.IH) simp_all
  then obtain h' where
    r: "adjust_loop mt cm pvals adj gs ?h1 = (h', None)"
       "\<And>g'. map_of (h' ! adj) g' =
            (if g' \<in> set gs then map_option (\<lambda>col. mt col method) (map_of (?h1 ! pvals) g')
             else map_of (?h1 ! adj) g')"
    by blast
  have "\<forall>g'. map_of (h' ! adj) g' =
            (if g' \<in> set (g # gs) then map_option (\<lambda>col. mt col method) (map_of (h ! pvals) g')
             else map_of (h ! adj) g')"
    using r(2) s by (simp add: at pv update_conv')
  then show ?case using step r(1) by simp
qed

lemma map_of_ones_like:
  "map_of (ones_like a) g = map_option (\<lambda>col. replicate (length col) 1) (map_of a g)"
  by (induction a) (auto simp: ones_like_def)

lemma ones_like_shape:
  "map fst (ones_like a) = map fst a
   \<and> map (\<lambda>(name, col). length col) (ones_like a) = map (\<lambda>(name, col). length col) a"
  by (induction a) (auto simp: ones_like_def)

lemma map_of_names: "g \<in> set (map fst a) \<Longrightarrow> \<exists>col. map_of a g = Some col \<and> (g, col) \<in> set a"
  by (induction a) auto

lemma adjust_pvalues_result:
  assumes "pvals < length h" and "map_of method_map cm = Some method"
    and "\<And>g col. (g, col) \<in> set (h ! pvals) \<Longrightarrow> length (mt col method) = length col"
  shows "\<exists>h'. adjust_pvalues mt h pvals cm = (h', Inr (length h))
     \<and> (\<forall>g. g \<in> set (map fst (h ! pvals)) \<longrightarrow>
            map_of (h' ! length h) g = map_option (\<lambda>col. mt col method) (map_of (h ! pvals) g))"
proof -
  define h1 where "h1 = h @ [ones_like (h ! pvals)]"
  have pv: "h1 ! pvals = h ! pvals" using assms(1) by (simp add: h1_def nth_append)
  have at: "h1 ! length h = ones_like (h ! pvals)" by (simp add: h1_def)
  have "\<exists>h'. adjust_loop mt cm pvals (length h) (map fst (h ! pvals)) h1 = (h', None)
     \<and> (\<forall>g. map_of (h' ! length h) g =
            (if g \<in> set (map fst (h ! pvals))
             then map_option (\<lambda>col. mt col method) (map_of (h1 ! pvals) g)
             else map_of (h1 ! length h) g))"
  proof (rule adjust_loop_result [OF assms(2)])
    show "pvals < length h1" using assms(1) by (simp add: h1_def)
    show "length h < length h1" by (simp add: h1_def)
    show "pvals \<noteq> length h" using assms(1) by simp
  next
    fix g assume "g \<in> set (map fst (h ! pvals))"
    from map_of_names [OF this]
    obtain col where c: "map_of (h ! pvals) g = Some col" "(g, col) \<in> set (h ! pvals)"
      by blast
    have l: "length (mt col method) = length col" using c(2) by (rule assms(3))
    have "map_of (h1 ! pvals) g = Some col" using c(1) by (simp add: pv)
    moreover have "map_of (h1 ! length h) g = Some (replicate (length col) 1)"
      using c(1) by (simp add: at map_of_ones_like)
    ultimately show "\<exists>col c. map_of (h1 ! pvals) g = Some col
            \<and> map_of (h1 ! length h) g = Some c
            \<and> length c = length col \<and> length (mt col method) = length col"
      using l by simp
  qed
  then obtain h' where
    r: "adjust_loop mt cm pvals (length h) (map fst (h ! pvals)) h1 = (h', None)"
       "\<And>g. map_of (h' ! length h) g =
            (if g \<in> set (map fst (h ! pvals))
             then map_option (\<lambda>col. mt col method) (map_of (h1 ! pvals) g)
             else map_of (h1 ! length h) g)"
    by blast
  have "adjust_pvalues mt h pvals cm = (h', Inr (length h))"
    using r(1) by (simp add: adjust_pvalues_def h1_def)
  moreover have "\<forall>g. g \<in> set (map fst (h ! pvals)) \<longrightarrow>
            map_of (h' ! length h) g = map_option (\<lambda>col. mt col method) (map_of (h ! pvals) g)"
    using r(2) pv by simp
  ultimately show ?thesis by blast
qed

lemma bonferroni_length: "length (bonferroni ps) = length ps"
  by (simp add: bonferroni_def)

lemma bonferroni_ge:
  assumes "i < length ps" and "0 \<le> ps ! i" and "ps ! i \<le> 1"
  shows "ps ! i \<le> bonferroni ps ! i"
proof -
  have n: "1 \<le> real (length ps)" using assms(1) by simp
  have "ps ! i * 1 \<le> ps ! i * real (length ps)"
    using n assms(2) by (rule mult_left_mono)
  then show ?thesis using assms(1,3) by (simp add: bonferroni_def)
qed

text \<open>
  C6. Let the correction primitive compute the Bonferroni correction for the method
  name \<^verbatim>\<open>"bonferroni"\<close>. For every array of p-values and every field (group column) of
  it, the adjuster returns an array whose field of that name is the Bonferroni
  correction of that one column, a function of the column alone, and at every position
  where the raw value is a p-value, between 0 and 1, the corrected value is at least
  the raw value.
\<close>

theorem bonferroni_adjusted_at_least_raw:
  assumes "pvals < length h"
    and "\<And>ps. multipletests ps ''bonferroni'' = bonferroni ps"
    and "map_of (h ! pvals) g = Some col"
    and "i < length col" and "0 \<le> col ! i" and "col ! i \<le> 1"
  shows "\<exists>h' pvals_adj. adjust_pvalues multipletests h pvals ''bonferroni'' = (h', Inr pvals_adj)
     \<and> map_of (h' ! pvals_adj) g = Some (bonferroni col)
     \<and> col ! i \<le> bonferroni col ! i"
proof -
  have m: "map_of method_map ''bonferroni'' = Some ''bonferroni''" by (simp add: method_map_def)
  have l: "\<And>g col. (g, col) \<in> set (h ! pvals) \<Longrightarrow> length (multipletests col ''bonferroni'') = length col"
    by (simp add: assms(2) bonferroni_length)
  have "\<exists>h'. adjust_pvalues multipletests h pvals ''bonferroni'' = (h', Inr (length h))
     \<and> (\<forall>g. g \<in> set (map fst (h ! pvals)) \<longrightarrow>
            map_of (h' ! length h) g
              = map_option (\<lambda>col. multipletests col ''bonferroni'') (map_of (h ! pvals) g))"
    by (rule adjust_pvalues_result [OF assms(1) m]) (rule l)
  then obtain h' where
    r: "adjust_pvalues multipletests h pvals ''bonferroni'' = (h', Inr (length h))"
       "\<forall>g. g \<in> set (map fst (h ! pvals)) \<longrightarrow>
            map_of (h' ! length h) g
              = map_option (\<lambda>col. multipletests col ''bonferroni'') (map_of (h ! pvals) g)"
    by blast
  have "g \<in> set (map fst (h ! pvals))"
    using assms(3) by (metis map_of_eq_None_iff option.distinct(1) set_map)
  then have "map_of (h' ! length h) g = Some (bonferroni col)"
    using r(2) assms(2,3) by simp
  moreover have "col ! i \<le> bonferroni col ! i"
    using assms(4-6) by (rule bonferroni_ge)
  ultimately show ?thesis using r(1) by blast
qed

theorem bonferroni_adjusted_at_least_raw_witness:
  "\<exists>h' pvals_adj.
     adjust_pvalues (\<lambda>ps method. bonferroni ps)
       [[(''icu'', [1 / 100, 1 / 2]), (''ward'', [1 / 5, 3 / 10])]] 0 ''bonferroni''
       = (h', Inr pvals_adj)
     \<and> map_of (h' ! pvals_adj) ''icu'' = Some [1 / 50, 1]
     \<and> (1 / 2 :: real) \<le> 1"
proof -
  let ?h = "[[(''icu'', [1 / 100, 1 / 2 :: real]), (''ward'', [1 / 5, 3 / 10])]]"
  have 1: "0 < length ?h" by simp
  have 2: "\<And>ps. (\<lambda>ps method. bonferroni ps) ps ''bonferroni'' = bonferroni ps" by simp
  have 3: "map_of (?h ! 0) ''icu'' = Some [1 / 100, 1 / 2]" by simp
  have 4: "1 < length [1 / 100, 1 / 2 :: real]" by simp
  have 5: "0 \<le> [1 / 100, 1 / 2 :: real] ! 1" by simp
  have 6: "[1 / 100, 1 / 2 :: real] ! 1 \<le> 1" by simp
  have b: "bonferroni [1 / 100, 1 / 2] = [1 / 50, 1]" by (simp add: bonferroni_def)
  from bonferroni_adjusted_at_least_raw [of 0 ?h "\<lambda>ps method. bonferroni ps", OF 1 2 3 4 5 6]
  show ?thesis by (simp add: b)
qed

text \<open>
  C10. The adjuster does not change the array it is given: after the call every array
  of the store it was called on, the input among them, is as before, whether the call
  returns or raises. When it returns, the result is at an address that was not
  allocated before, with the field names and the column lengths of the input. It does
  return when the method name is one of the two supported and the correction primitive
  returns as many values as it is given.
\<close>

theorem adjust_pvalues_allocates_and_keeps_input:
  assumes "pvals < length h"
  shows "\<exists>h' r. adjust_pvalues multipletests h pvals corr_method = (h', r)
     \<and> (\<forall>a < length h. h' ! a = h ! a)
     \<and> (\<forall>pvals_adj. r = Inr pvals_adj \<longrightarrow>
            pvals_adj = length h \<and> pvals_adj < length h'
            \<and> map fst (h' ! pvals_adj) = map fst (h ! pvals)
            \<and> map (\<lambda>(name, col). length col) (h' ! pvals_adj)
                = map (\<lambda>(name, col). length col) (h ! pvals))
     \<and> (\<forall>method. map_of method_map corr_method = Some method
            \<and> (\<forall>(name, col) \<in> set (h ! pvals). length (multipletests col method) = length col)
          \<longrightarrow> r = Inr (length h))"
proof -
  let ?h1 = "h @ [ones_like (h ! pvals)]"
  obtain h' e where
    l: "adjust_loop multipletests corr_method pvals (length h) (map fst (h ! pvals)) ?h1 = (h', e)"
    by (cases "adjust_loop multipletests corr_method pvals (length h) (map fst (h ! pvals)) ?h1")
  from adjust_loop_frame [OF l]
  have f: "length h' = length ?h1" "\<And>a. a \<noteq> length h \<Longrightarrow> h' ! a = ?h1 ! a"
    "map fst (h' ! length h) = map fst (?h1 ! length h)"
    "map (\<lambda>(name, col). length col) (h' ! length h)
       = map (\<lambda>(name, col). length col) (?h1 ! length h)"
    by simp_all
  let ?r = "case e of Some x \<Rightarrow> Inl x | None \<Rightarrow> Inr (length h)"
  have res: "adjust_pvalues multipletests h pvals corr_method = (h', ?r)"
    using l by (simp add: adjust_pvalues_def split: option.splits)
  have old: "\<forall>a < length h. h' ! a = h ! a"
    using f(2) by (simp add: nth_append)
  have new: "\<forall>pvals_adj. ?r = Inr pvals_adj \<longrightarrow>
            pvals_adj = length h \<and> pvals_adj < length h'
            \<and> map fst (h' ! pvals_adj) = map fst (h ! pvals)
            \<and> map (\<lambda>(name, col). length col) (h' ! pvals_adj)
                = map (\<lambda>(name, col). length col) (h ! pvals)"
    using f(1,3,4) ones_like_shape [of "h ! pvals"] by (auto split: option.splits)
  have ret: "\<forall>method. map_of method_map corr_method = Some method
            \<and> (\<forall>(name, col) \<in> set (h ! pvals). length (multipletests col method) = length col)
          \<longrightarrow> ?r = Inr (length h)"
  proof (intro allI impI)
    fix meth
    assume a: "map_of method_map corr_method = Some meth
            \<and> (\<forall>(name, col) \<in> set (h ! pvals). length (multipletests col meth) = length col)"
    then have len: "\<And>g col. (g, col) \<in> set (h ! pvals) \<Longrightarrow> length (multipletests col meth) = length col"
      by auto
    from a have mm: "map_of method_map corr_method = Some meth" by simp
    have "\<exists>h2. adjust_pvalues multipletests h pvals corr_method = (h2, Inr (length h))
       \<and> (\<forall>g. g \<in> set (map fst (h ! pvals)) \<longrightarrow>
            map_of (h2 ! length h) g
              = map_option (\<lambda>col. multipletests col meth) (map_of (h ! pvals) g))"
      by (rule adjust_pvalues_result [OF assms mm]) (rule len)
    then obtain h2 where "adjust_pvalues multipletests h pvals corr_method = (h2, Inr (length h))"
      by blast
    with res show "?r = Inr (length h)" by simp
  qed
  from res old new ret show ?thesis by blast
qed

theorem adjust_pvalues_allocates_and_keeps_input_witness:
  "\<exists>h'. adjust_pvalues (\<lambda>ps method. bonferroni ps)
           [[(''icu'', [1 / 100, 1 / 2]), (''ward'', [1 / 5, 3 / 10])]] 0 ''bonferroni''
           = (h', Inr 1)
     \<and> h' ! 0 = [(''icu'', [1 / 100, 1 / 2]), (''ward'', [1 / 5, 3 / 10])]
     \<and> map fst (h' ! 1) = [''icu'', ''ward'']
     \<and> map (\<lambda>(name, col). length col) (h' ! 1) = [2, 2]"
proof -
  let ?h = "[[(''icu'', [1 / 100, 1 / 2 :: real]), (''ward'', [1 / 5, 3 / 10])]]"
  have 1: "0 < length ?h" by simp
  have m: "map_of method_map ''bonferroni'' = Some ''bonferroni''" by (simp add: method_map_def)
  have l: "\<forall>(name, col) \<in> set (?h ! 0).
             length ((\<lambda>ps method. bonferroni ps) col ''bonferroni'') = length col"
    by (simp add: bonferroni_length)
  from adjust_pvalues_allocates_and_keeps_input
         [of 0 ?h "\<lambda>ps method. bonferroni ps" "''bonferroni''", OF 1]
  obtain h' r where
    r: "adjust_pvalues (\<lambda>ps method. bonferroni ps) ?h 0 ''bonferroni'' = (h', r)"
       "\<forall>a < length ?h. h' ! a = ?h ! a"
       "\<forall>pvals_adj. r = Inr pvals_adj \<longrightarrow>
            pvals_adj = length ?h \<and> pvals_adj < length h'
            \<and> map fst (h' ! pvals_adj) = map fst (?h ! 0)
            \<and> map (\<lambda>(name, col). length col) (h' ! pvals_adj)
                = map (\<lambda>(name, col). length col) (?h ! 0)"
       "\<forall>method. map_of method_map ''bonferroni'' = Some method
            \<and> (\<forall>(name, col) \<in> set (?h ! 0).
                  length ((\<lambda>ps method. bonferroni ps) col method) = length col)
          \<longrightarrow> r = Inr (length ?h)"
    by blast
  have ri: "r = Inr 1" using r(4) m l by simp
  have "h' ! 0 = ?h ! 0" using r(2) by simp
  moreover have "map fst (h' ! 1) = map fst (?h ! 0)
      \<and> map (\<lambda>(name, col). length col) (h' ! 1) = map (\<lambda>(name, col). length col) (?h ! 0)"
    using r(3) ri by simp
  ultimately show ?thesis using r(1) ri by simp
qed

section \<open>Properties of the ResultStore\<close>






section \<open>Properties of the ResultSorter\<close>

lemma argsort_length: "length (argsort xs) = length xs"
  by (simp add: argsort_def)

lemma argsort_set: "set (argsort xs) = {..<length xs}"
proof -
  have m: "map snd (zip xs [0..<length xs]) = [0..<length xs]"
    by (rule map_snd_zip) simp
  have "set (argsort xs) = snd ` set (zip xs [0..<length xs])"
    by (simp add: argsort_def)
  also have "\<dots> = set (map snd (zip xs [0..<length xs]))"
    by (simp only: set_map)
  also have "\<dots> = {..<length xs}" unfolding m by (simp add: atLeast0LessThan)
  finally show ?thesis .
qed

lemma argsort_distinct: "distinct (argsort xs)"
proof -
  let ?zs = "zip xs [0..<length xs]"
  have m: "map snd ?zs = [0..<length xs]"
    by (rule map_snd_zip) simp
  have "distinct (map snd ?zs)" unfolding m by simp
  then have "distinct ?zs \<and> inj_on snd (set ?zs)" unfolding distinct_map .
  then show ?thesis by (simp add: argsort_def distinct_map)
qed

lemma argsort_sorted: "sorted (map (\<lambda>i. xs ! i) (argsort xs))"
proof -
  let ?zs = "zip xs [0..<length xs]"
  have "\<And>z. z \<in> set (sort_key fst ?zs) \<Longrightarrow> xs ! snd z = fst z"
  proof -
    fix z assume "z \<in> set (sort_key fst ?zs)"
    then have "z \<in> set ?zs" by simp
    then show "xs ! snd z = fst z" by (auto simp: in_set_zip)
  qed
  then have "map (\<lambda>i. xs ! i) (argsort xs) = map fst (sort_key fst ?zs)"
    by (simp add: argsort_def)
  then show ?thesis by (simp add: sorted_sort_key)
qed

lemma argsort_cells_float:
  "list_all is_float col \<Longrightarrow> argsort_cells col = Inr (argsort (map float_key col))"
  by (simp add: argsort_cells_def)

lemma update_as_map:
  "distinct (map fst cols) \<Longrightarrow> map_of cols g = Some col \<Longrightarrow>
   AList.update g c' cols = map (\<lambda>(name, c). (name, if name = g then c' else c)) cols"
proof (induction cols)
  case Nil
  then show ?case by simp
next
  case (Cons x cols)
  obtain name c where x: "x = (name, c)" by (cases x)
  show ?case
  proof (cases "name = g")
    case True
    then have "g \<notin> fst ` set cols" using Cons.prems(1) x by simp
    then have "map (\<lambda>(name, c). (name, if name = g then c' else c)) cols = cols"
      by (induction cols) auto
    then show ?thesis using True x by simp
  next
    case False
    then show ?thesis using Cons x by simp
  qed
qed

lemma sort_field_permutes:
  assumes "distinct (map fst cols)" and "map_of cols g = Some col"
    and "length sorted_indexes = length col" and "set sorted_indexes \<subseteq> {..<length col}"
  shows "sort_field (Arr (RecArray cols)) g sorted_indexes =
           Inr (Arr (RecArray (permute_columns (one_group g sorted_indexes) cols)))"
proof -
  have t: "take_indices col sorted_indexes = Inr (map (\<lambda>i. col ! i) sorted_indexes)"
    using assms(4) by (auto simp: take_indices_def list_all_iff)
  have a: "assign_column col (map (\<lambda>i. col ! i) sorted_indexes)
             = Inr (map (\<lambda>i. col ! i) sorted_indexes)"
    using assms(3) by (simp add: assign_column_def)
  have u: "AList.update g (map (\<lambda>i. col ! i) sorted_indexes) cols
             = permute_columns (one_group g sorted_indexes) cols"
    unfolding update_as_map [OF assms(1,2)] permute_columns_def one_group_def
  proof (rule map_cong [OF refl])
    fix x assume "x \<in> set cols"
    obtain name c where x: "x = (name, c)" by (cases x)
    have "name = g \<Longrightarrow> c = col"
      using \<open>x \<in> set cols\<close> x assms(1,2) by (metis map_of_is_SomeI option.inject)
    then show "(case x of (name, c) \<Rightarrow> (name, if name = g then map (\<lambda>i. col ! i) sorted_indexes else c))
             = (case x of (name, col) \<Rightarrow> (name, case (if name = g then Some sorted_indexes else None) of
                   None \<Rightarrow> col | Some sorted_indexes \<Rightarrow> map (\<lambda>i. col ! i) sorted_indexes))"
      using x by auto
  qed
  show ?thesis using assms(2) by (simp add: sort_field_def t a u)
qed

lemma map_of_permute_columns:
  "map_of (permute_columns idx cols) g =
     map_option (\<lambda>col. case idx g of None \<Rightarrow> col | Some is \<Rightarrow> map (\<lambda>i. col ! i) is) (map_of cols g)"
  by (induction cols) (auto simp: permute_columns_def split: option.splits)

lemma names_permute_columns: "map fst (permute_columns idx cols) = map fst cols"
  by (induction cols) (auto simp: permute_columns_def)

lemma map_of_permute_results:
  "map_of (permute_results idx res) key = map_option (permute_field idx key) (map_of res key)"
  by (induction res) (auto simp: permute_results_def)

lemma permute_results_simps:
  "permute_results idx [] = []"
  "permute_results idx ((key, v) # res) = (key, permute_field idx key v) # permute_results idx res"
  by (simp_all add: permute_results_def)

lemma keys_permute_results: "map fst (permute_results idx res) = map fst res"
  by (induction res) (auto simp: permute_results_def)

lemma aligned_field:
  assumes "aligned P res" and "(key, v) \<in> set res" and "key \<noteq> ''params''"
  shows "\<exists>cols. v = Arr (RecArray cols) \<and> distinct (map fst cols)
           \<and> (\<forall>(g, p) \<in> set P. \<exists>col. map_of cols g = Some col \<and> length col = length p)"
proof -
  from assms have c: "case v of
      Arr (RecArray cols) \<Rightarrow>
        distinct (map fst cols) \<and>
        list_all (\<lambda>(grp, group_pvals).
                    case map_of cols grp of
                      Some col \<Rightarrow> length col = length group_pvals
                    | None \<Rightarrow> False) P
    | _ \<Rightarrow> False"
    by (auto simp: aligned_def list_all_iff)
  then obtain cols where v: "v = Arr (RecArray cols)"
    by (cases v; simp split: array.splits)
  from c v have d: "distinct (map fst cols)"
    and la: "list_all (\<lambda>(grp, group_pvals).
                    case map_of cols grp of
                      Some col \<Rightarrow> length col = length group_pvals
                    | None \<Rightarrow> False) P"
    by simp_all
  have "\<forall>(g, p) \<in> set P. \<exists>col. map_of cols g = Some col \<and> length col = length p"
  proof (clarify)
    fix g p assume "(g, p) \<in> set P"
    with la have "case map_of cols g of Some col \<Rightarrow> length col = length p | None \<Rightarrow> False"
      unfolding list_all_iff by blast
    then show "\<exists>col. map_of cols g = Some col \<and> length col = length p"
      by (cases "map_of cols g") simp_all
  qed
  with v d show ?thesis by blast
qed

lemma sort_keys_permutes:
  assumes "\<And>key v. (key, v) \<in> set res \<Longrightarrow> key \<noteq> ''params'' \<Longrightarrow>
             \<exists>cols col. v = Arr (RecArray cols) \<and> distinct (map fst cols)
               \<and> map_of cols g = Some col \<and> length col = length idx"
    and "set idx \<subseteq> {..<length idx}"
  shows "sort_keys idx g res = Inr (permute_results (one_group g idx) res)"
  using assms(1)
proof (induction res)
  case Nil
  then show ?case by (simp add: permute_results_simps)
next
  case (Cons x res)
  obtain key v where x: "x = (key, v)" by (cases x)
  have ih: "sort_keys idx g res = Inr (permute_results (one_group g idx) res)"
  proof (rule Cons.IH)
    fix key v assume "(key, v) \<in> set res" and "key \<noteq> ''params''"
    then show "\<exists>cols col. v = Arr (RecArray cols) \<and> distinct (map fst cols)
               \<and> map_of cols g = Some col \<and> length col = length idx"
      using Cons.prems [of key v] by simp
  qed
  show ?case
  proof (cases "key = ''params''")
    case True
    have "permute_field (one_group g idx) key v = v"
      using True by (simp add: permute_field_def)
    then show ?thesis using True x ih by (simp add: permute_results_simps)
  next
    case False
    from Cons.prems [of key v] x False obtain cols col where
      v: "v = Arr (RecArray cols)" "distinct (map fst cols)" "map_of cols g = Some col"
         "length col = length idx"
      by auto
    have "sort_field v g idx = Inr (Arr (RecArray (permute_columns (one_group g idx) cols)))"
      unfolding v(1)
    proof (rule sort_field_permutes [OF v(2) v(3)])
      show "length idx = length col" using v(4) by (rule sym)
      show "set idx \<subseteq> {..<length col}" unfolding v(4) by (rule assms(2))
    qed
    moreover have "permute_field (one_group g idx) key v
        = Arr (RecArray (permute_columns (one_group g idx) cols))"
      using False v(1) by (simp add: permute_field_def)
    ultimately show ?thesis using x ih False by (simp add: permute_results_simps)
  qed
qed

lemma permute_columns_compose:
  assumes "f g = None"
  shows "permute_columns f (permute_columns (one_group g idx) cols)
           = permute_columns (\<lambda>g'. if g' = g then Some idx else f g') cols"
  using assms by (induction cols) (auto simp: permute_columns_def one_group_def split: option.splits)

lemma permute_field_compose:
  assumes "f g = None"
  shows "permute_field f key (permute_field (one_group g idx) key v)
           = permute_field (\<lambda>g'. if g' = g then Some idx else f g') key v"
proof (cases "key = ''params''")
  case True
  then show ?thesis by (simp add: permute_field_def)
next
  case False
  show ?thesis
  proof (cases v)
    case (Params d)
    then show ?thesis by (simp add: permute_field_def)
  next
    case (Arr a)
    then show ?thesis
      using assms False by (cases a) (simp_all add: permute_field_def permute_columns_compose)
  qed
qed

lemma permute_results_compose:
  assumes "f g = None"
  shows "permute_results f (permute_results (one_group g idx) res)
           = permute_results (\<lambda>g'. if g' = g then Some idx else f g') res"
proof (induction res)
  case Nil
  then show ?case by (simp add: permute_results_simps)
next
  case (Cons x res)
  obtain key v where x: "x = (key, v)" by (cases x)
  show ?case unfolding x permute_results_simps Cons.IH
    by (simp only: permute_field_compose [where f = f, OF assms])
qed

lemma alignedI:
  assumes "\<And>key v. (key, v) \<in> set res \<Longrightarrow> key \<noteq> ''params'' \<Longrightarrow>
             \<exists>cols. v = Arr (RecArray cols) \<and> distinct (map fst cols)
               \<and> (\<forall>(g, p) \<in> set P. \<exists>col. map_of cols g = Some col \<and> length col = length p)"
  shows "aligned P res"
  unfolding aligned_def list_all_iff
proof (rule ballI)
  fix x assume xin: "x \<in> set res"
  obtain key v where x: "x = (key, v)" by (cases x)
  show "case x of (key, v) \<Rightarrow> key = ''params'' \<or>
          (case v of
             Arr (RecArray cols) \<Rightarrow>
               distinct (map fst cols) \<and>
               (\<forall>x \<in> set P. case x of (grp, group_pvals) \<Rightarrow>
                  (case map_of cols grp of Some col \<Rightarrow> length col = length group_pvals
                   | None \<Rightarrow> False))
           | _ \<Rightarrow> False)"
  proof (cases "key = ''params''")
    case True
    then show ?thesis using x by simp
  next
    case False
    from assms [of key v] xin x False obtain cols where
      c: "v = Arr (RecArray cols)" "distinct (map fst cols)"
         "\<forall>(g, p) \<in> set P. \<exists>col. map_of cols g = Some col \<and> length col = length p"
      by blast
    have b: "\<forall>x \<in> set P. case x of (grp, group_pvals) \<Rightarrow>
          (case map_of cols grp of Some col \<Rightarrow> length col = length group_pvals | None \<Rightarrow> False)"
    proof (clarify)
      fix g p assume "(g, p) \<in> set P"
      with c(3) obtain col where "map_of cols g = Some col" "length col = length p" by blast
      then show "case map_of cols g of Some col \<Rightarrow> length col = length p | None \<Rightarrow> False"
        by simp
    qed
    show ?thesis unfolding x c(1) using c(2) b by simp
  qed
qed

lemma in_permute_columns:
  "(g, p') \<in> set (permute_columns h P) \<Longrightarrow>
   \<exists>p. (g, p) \<in> set P \<and> p' = (case h g of None \<Rightarrow> p | Some is \<Rightarrow> map (\<lambda>i. p ! i) is)"
  by (auto simp: permute_columns_def)

lemma in_permute_results:
  "(key, v') \<in> set (permute_results h res) \<Longrightarrow>
   \<exists>v. (key, v) \<in> set res \<and> v' = permute_field h key v"
  by (auto simp: permute_results_def)

lemma aligned_permute:
  assumes "aligned P res"
  shows "aligned (permute_columns h P) (permute_results h res)"
proof (rule alignedI)
  fix key v' assume kv: "(key, v') \<in> set (permute_results h res)" and np: "key \<noteq> ''params''"
  from in_permute_results [OF kv] obtain v where v: "(key, v) \<in> set res" "v' = permute_field h key v"
    by blast
  from aligned_field [OF assms v(1) np] obtain cols where
    c: "v = Arr (RecArray cols)" "distinct (map fst cols)"
       "\<forall>(g, p) \<in> set P. \<exists>col. map_of cols g = Some col \<and> length col = length p"
    by blast
  have v': "v' = Arr (RecArray (permute_columns h cols))"
    using v(2) c(1) np by (simp add: permute_field_def)
  have d: "distinct (map fst (permute_columns h cols))"
    using c(2) by (simp add: names_permute_columns)
  have "\<forall>(g, p') \<in> set (permute_columns h P).
          \<exists>col. map_of (permute_columns h cols) g = Some col \<and> length col = length p'"
  proof (clarify)
    fix g p' assume "(g, p') \<in> set (permute_columns h P)"
    from in_permute_columns [OF this] obtain p where
      p: "(g, p) \<in> set P" "p' = (case h g of None \<Rightarrow> p | Some is \<Rightarrow> map (\<lambda>i. p ! i) is)"
      by blast
    from c(3) p(1) obtain col where col: "map_of cols g = Some col" "length col = length p"
      by blast
    have "map_of (permute_columns h cols) g
            = Some (case h g of None \<Rightarrow> col | Some is \<Rightarrow> map (\<lambda>i. col ! i) is)"
      using col(1) by (simp add: map_of_permute_columns)
    moreover have "length (case h g of None \<Rightarrow> col | Some is \<Rightarrow> map (\<lambda>i. col ! i) is) = length p'"
      using col(2) p(2) by (simp split: option.splits)
    ultimately show "\<exists>col. map_of (permute_columns h cols) g = Some col \<and> length col = length p'"
      by blast
  qed
  with v' d show "\<exists>cols. v' = Arr (RecArray cols) \<and> distinct (map fst cols)
               \<and> (\<forall>(g, p) \<in> set (permute_columns h P).
                     \<exists>col. map_of cols g = Some col \<and> length col = length p)"
    by blast
qed

text \<open>
  The closed form of the loop over the groups: every visited group column of every
  stored array is reordered by the positions that sort that group's adjusted
  p-values.
\<close>

lemma sort_groups_permutes:
  assumes "map_of res ''pvals_adj'' = Some (Arr (RecArray P))" and "aligned P res"
    and "distinct gs" and "set gs \<subseteq> set (map fst P)"
    and "\<And>g p. g \<in> set gs \<Longrightarrow> map_of P g = Some p \<Longrightarrow> list_all is_float p"
  shows "sort_groups gs res =
           Inr (permute_results (\<lambda>g. if g \<in> set gs then sorting_indexes P g else None) res)"
  using assms
proof (induction gs arbitrary: res P)
  case Nil
  have "permute_results (\<lambda>g. None) res = res"
  proof (induction res)
    case Nil
    then show ?case by (simp add: permute_results_simps)
  next
    case (Cons x res)
    obtain key v where x: "x = (key, v)" by (cases x)
    have "permute_columns (\<lambda>g. None) cols = cols" for cols :: "cell recarray"
      by (induction cols) (auto simp: permute_columns_def)
    then have "permute_field (\<lambda>g. None) key v = v"
      by (simp add: permute_field_def split: field.splits array.splits)
    then show ?case using Cons x by (simp add: permute_results_simps)
  qed
  then show ?case by simp
next
  case (Cons g gs)
  from Cons.prems(4) have "g \<in> set (map fst P)" by simp
  from map_of_names [OF this] obtain p where p: "map_of P g = Some p" "(g, p) \<in> set P"
    by blast
  define idx where "idx = argsort (map float_key p)"
  have fl: "list_all is_float p" using Cons.prems(5) [of g p] p(1) by simp
  have ac: "argsort_cells p = Inr idx" using fl by (simp add: argsort_cells_float idx_def)
  have li: "length idx = length p" by (simp add: idx_def argsort_length)
  have si: "set idx \<subseteq> {..<length idx}"
    unfolding li by (simp add: idx_def argsort_set)
  define res1 where "res1 = permute_results (one_group g idx) res"
  define P1 where "P1 = permute_columns (one_group g idx) P"
  have sk: "sort_keys idx g res = Inr res1"
    unfolding res1_def
  proof (rule sort_keys_permutes [OF _ si])
    fix key v assume kv: "(key, v) \<in> set res" and np: "key \<noteq> ''params''"
    from aligned_field [OF Cons.prems(2) kv np] obtain cols where
      c: "v = Arr (RecArray cols)" "distinct (map fst cols)"
         "\<forall>(g, p) \<in> set P. \<exists>col. map_of cols g = Some col \<and> length col = length p"
      by blast
    from c(3) p(2) obtain col where "map_of cols g = Some col" "length col = length p" by blast
    with c(1,2) li show "\<exists>cols col. v = Arr (RecArray cols) \<and> distinct (map fst cols)
               \<and> map_of cols g = Some col \<and> length col = length idx"
      by simp
  qed
  have step: "sort_groups (g # gs) res = sort_groups gs res1"
    using Cons.prems(1) p(1) ac sk by simp
  have m1: "map_of res1 ''pvals_adj'' = Some (Arr (RecArray P1))"
    using Cons.prems(1) by (simp add: res1_def P1_def map_of_permute_results permute_field_def)
  have a1: "aligned P1 res1"
    unfolding P1_def res1_def using Cons.prems(2) by (rule aligned_permute)
  have d1: "distinct gs" and gn: "g \<notin> set gs" using Cons.prems(3) by simp_all
  have n1: "set gs \<subseteq> set (map fst P1)"
    using Cons.prems(4) by (simp add: P1_def names_permute_columns)
  have same: "map_of P1 g' = map_of P g'" if "g' \<in> set gs" for g'
  proof -
    from that gn have "g' \<noteq> g" by blast
    then have "one_group g idx g' = None" by (simp add: one_group_def)
    then show ?thesis
      by (simp add: P1_def map_of_permute_columns option.map_ident)
  qed
  have f1: "list_all is_float p'" if "g' \<in> set gs" and "map_of P1 g' = Some p'" for g' p'
  proof -
    have "map_of P g' = Some p'" using that same by simp
    moreover have "g' \<in> set (g # gs)" using that(1) by simp
    ultimately show ?thesis by (rule Cons.prems(5) [rotated])
  qed
  have ih: "sort_groups gs res1 =
      Inr (permute_results (\<lambda>g'. if g' \<in> set gs then sorting_indexes P1 g' else None) res1)"
    using m1 a1 d1 n1 f1 by (rule Cons.IH)
  define F where "F = (\<lambda>g'. if g' \<in> set gs then sorting_indexes P g' else None)"
  have fe: "(\<lambda>g'. if g' \<in> set gs then sorting_indexes P1 g' else None) = F"
    unfolding F_def by (rule ext) (simp add: sorting_indexes_def same)
  have none: "F g = None"
    using gn by (simp add: F_def)
  have comp: "permute_results F res1
      = permute_results (\<lambda>g'. if g' = g then Some idx else F g') res"
    unfolding res1_def by (rule permute_results_compose [where f = F and g = g, OF none])
  have target: "(\<lambda>g'. if g' = g then Some idx else F g')
      = (\<lambda>g'. if g' \<in> set (g # gs) then sorting_indexes P g' else None)"
    unfolding F_def by (rule ext) (simp add: sorting_indexes_def p(1) idx_def)
  show ?case unfolding step ih fe comp target ..
qed

lemma sorted_float_key_Num: "sorted (map float_key (map Num rs)) = sorted rs"
  by (induction rs) (auto simp: less_eq_prod_def)

lemma permuted_by_argsort_sorted:
  "sorted (map float_key (map (\<lambda>i. p ! i) (argsort (map float_key p))))"
proof -
  have "map float_key (map (\<lambda>i. p ! i) (argsort (map float_key p)))
          = map (\<lambda>i. map float_key p ! i) (argsort (map float_key p))"
    using argsort_set [of "map float_key p"] by auto
  then show ?thesis by (simp only: argsort_sorted)
qed

text \<open>
  C7. Let the stored result under the key have an array of adjusted p-values with
  float columns, and let every stored value but the one under \<^verbatim>\<open>"params"\<close> be a
  structured array with a column of the same length for each of its groups. Then the
  sorter returns; the keys are as before and the value under \<^verbatim>\<open>"params"\<close> is unchanged;
  every column of the stored adjusted p-values is in non-decreasing order (missing
  values last); and for every group, the positions that sort its adjusted p-values are
  a permutation of the row positions by which the column of that group in every
  stored array other than \<^verbatim>\<open>"params"\<close> is reordered.
\<close>

theorem sort_features_sorts_every_group_column:
  assumes "map_of adata_uns key_added = Some res"
    and "map_of res ''pvals_adj'' = Some (Arr (RecArray P))"
    and "aligned P res"
    and "\<forall>(g, p) \<in> set P. list_all is_float p"
  shows "\<exists>res'. sort_features adata_uns key_added = Inr (AList.update key_added res' adata_uns)
     \<and> map fst res' = map fst res
     \<and> map_of res' ''params'' = map_of res ''params''
     \<and> (\<exists>P'. map_of res' ''pvals_adj'' = Some (Arr (RecArray P'))
            \<and> map fst P' = map fst P
            \<and> (\<forall>(g, p') \<in> set P'. sorted (map float_key p')))
     \<and> (\<forall>(g, p) \<in> set P.
           set (argsort (map float_key p)) = {..<length p}
           \<and> distinct (argsort (map float_key p))
           \<and> (\<forall>key cols col.
                 key \<noteq> ''params'' \<and> map_of res key = Some (Arr (RecArray cols))
                 \<and> map_of cols g = Some col
               \<longrightarrow> (\<exists>cols'. map_of res' key = Some (Arr (RecArray cols'))
                      \<and> map_of cols' g
                          = Some (map (\<lambda>i. col ! i) (argsort (map float_key p))))))"
proof -
  have pin: "(''pvals_adj'', Arr (RecArray P)) \<in> set res"
    using assms(2) by (rule map_of_SomeD)
  have np: "''pvals_adj'' \<noteq> ''params''" by simp
  from aligned_field [OF assms(3) pin np] have dP: "distinct (map fst P)" by auto
  have look: "map_of P g = Some p" if "(g, p) \<in> set P" for g p
    using dP that by simp
  have F: "(\<lambda>g. if g \<in> set (map fst P) then sorting_indexes P g else None) = sorting_indexes P"
  proof (rule ext)
    fix g
    show "(if g \<in> set (map fst P) then sorting_indexes P g else None) = sorting_indexes P g"
    proof (cases "g \<in> set (map fst P)")
      case True
      then show ?thesis by simp
    next
      case False
      then have "map_of P g = None" by (simp add: map_of_eq_None_iff)
      then show ?thesis using False by (simp add: sorting_indexes_def)
    qed
  qed
  define res' where "res' = permute_results (sorting_indexes P) res"
  have "sort_groups (map fst P) res =
          Inr (permute_results (\<lambda>g. if g \<in> set (map fst P) then sorting_indexes P g else None) res)"
  proof (rule sort_groups_permutes [OF assms(2,3) dP subset_refl])
    fix g p assume "map_of P g = Some p"
    then have "(g, p) \<in> set P" by (rule map_of_SomeD)
    with assms(4) show "list_all is_float p" by blast
  qed
  then have sg: "sort_groups (map fst P) res = Inr res'"
    unfolding F res'_def .
  have 1: "sort_features adata_uns key_added = Inr (AList.update key_added res' adata_uns)"
    using assms(1,2) sg by (simp add: sort_features_def)
  have 2: "map fst res' = map fst res" by (simp add: res'_def keys_permute_results)
  have 3: "map_of res' ''params'' = map_of res ''params''"
    by (cases "map_of res ''params''")
       (simp_all add: res'_def map_of_permute_results permute_field_def)
  have 4: "\<exists>P'. map_of res' ''pvals_adj'' = Some (Arr (RecArray P'))
            \<and> map fst P' = map fst P
            \<and> (\<forall>(g, p') \<in> set P'. sorted (map float_key p'))"
  proof (intro exI conjI)
    show "map_of res' ''pvals_adj'' = Some (Arr (RecArray (permute_columns (sorting_indexes P) P)))"
      using assms(2) by (simp add: res'_def map_of_permute_results permute_field_def)
    show "map fst (permute_columns (sorting_indexes P) P) = map fst P"
      by (rule names_permute_columns)
    show "\<forall>(g, p') \<in> set (permute_columns (sorting_indexes P) P). sorted (map float_key p')"
    proof (clarify)
      fix g p' assume "(g, p') \<in> set (permute_columns (sorting_indexes P) P)"
      from in_permute_columns [OF this] obtain p where
        p: "(g, p) \<in> set P"
           "p' = (case sorting_indexes P g of None \<Rightarrow> p | Some is \<Rightarrow> map (\<lambda>i. p ! i) is)"
        by blast
      have "sorting_indexes P g = Some (argsort (map float_key p))"
        using look [OF p(1)] by (simp add: sorting_indexes_def)
      with p(2) show "sorted (map float_key p')"
        by (simp only: option.case permuted_by_argsort_sorted)
    qed
  qed
  have 5: "\<forall>(g, p) \<in> set P.
           set (argsort (map float_key p)) = {..<length p}
           \<and> distinct (argsort (map float_key p))
           \<and> (\<forall>key cols col.
                 key \<noteq> ''params'' \<and> map_of res key = Some (Arr (RecArray cols))
                 \<and> map_of cols g = Some col
               \<longrightarrow> (\<exists>cols'. map_of res' key = Some (Arr (RecArray cols'))
                      \<and> map_of cols' g
                          = Some (map (\<lambda>i. col ! i) (argsort (map float_key p)))))"
  proof (clarify, intro conjI allI impI)
    fix g p assume gp: "(g, p) \<in> set P"
    show "set (argsort (map float_key p)) = {..<length p}"
      using argsort_set [of "map float_key p"] by simp
    show "distinct (argsort (map float_key p))" by (rule argsort_distinct)
    fix key cols col
    assume a: "key \<noteq> ''params'' \<and> map_of res key = Some (Arr (RecArray cols))
                 \<and> map_of cols g = Some col"
    have si: "sorting_indexes P g = Some (argsort (map float_key p))"
      using look [OF gp] by (simp add: sorting_indexes_def)
    have "map_of res' key = Some (Arr (RecArray (permute_columns (sorting_indexes P) cols)))"
      using a by (simp add: res'_def map_of_permute_results permute_field_def)
    moreover have "map_of (permute_columns (sorting_indexes P) cols) g
        = Some (map (\<lambda>i. col ! i) (argsort (map float_key p)))"
      using a si by (simp add: map_of_permute_columns)
    ultimately show "\<exists>cols'. map_of res' key = Some (Arr (RecArray cols'))
                      \<and> map_of cols' g
                          = Some (map (\<lambda>i. col ! i) (argsort (map float_key p)))"
      by blast
  qed
  from 1 2 3 4 5 show ?thesis by blast
qed

theorem sort_features_sorts_every_group_column_witness:
  "\<exists>res'. sort_features
             [(''rank_features_groups'',
               [(''params'', Params [(''groupby'', ''ward'')]),
                (''names'', Arr (RecArray [(''icu'', [Str ''age'', Str ''sex'', Str ''diag''])])),
                (''pvals_adj'', Arr (RecArray [(''icu'', [Num (1 / 2), Num (1 / 10), Num (3 / 10)])]))])]
             ''rank_features_groups''
           = Inr [(''rank_features_groups'', res')]
     \<and> map fst res' = [''params'', ''names'', ''pvals_adj'']
     \<and> map_of res' ''params'' = Some (Params [(''groupby'', ''ward'')])
     \<and> (\<exists>cols. map_of res' ''names'' = Some (Arr (RecArray cols))
            \<and> map_of cols ''icu'' = Some [Str ''sex'', Str ''diag'', Str ''age''])
     \<and> (\<exists>cols. map_of res' ''pvals_adj'' = Some (Arr (RecArray cols))
            \<and> map_of cols ''icu'' = Some [Num (1 / 10), Num (3 / 10), Num (1 / 2)])"
proof -
  let ?p = "[Num (1 / 2), Num (1 / 10), Num (3 / 10)]"
  let ?P = "[(''icu'', ?p)]"
  let ?n = "[Str ''age'', Str ''sex'', Str ''diag'']"
  let ?res = "[(''params'', Params [(''groupby'', ''ward'')]),
                (''names'', Arr (RecArray [(''icu'', ?n)])),
                (''pvals_adj'', Arr (RecArray ?P))]"
  have 1: "map_of [(''rank_features_groups'', ?res)] ''rank_features_groups'' = Some ?res"
    by simp
  have 2: "map_of ?res ''pvals_adj'' = Some (Arr (RecArray ?P))" by simp
  have 3: "aligned ?P ?res" by (simp add: aligned_def)
  have 4: "\<forall>(g, p) \<in> set ?P. list_all is_float p" by simp
  have as: "argsort (map float_key ?p) = [1, 2, 0]"
    by (simp add: argsort_def upt_rec less_eq_prod_def)
  from sort_features_sorts_every_group_column [OF 1 2 3 4]
  obtain res' where
    r: "sort_features [(''rank_features_groups'', ?res)] ''rank_features_groups''
          = Inr (AList.update ''rank_features_groups'' res' [(''rank_features_groups'', ?res)])"
       "map fst res' = map fst ?res"
       "map_of res' ''params'' = map_of ?res ''params''"
       "\<forall>(g, p) \<in> set ?P.
           set (argsort (map float_key p)) = {..<length p}
           \<and> distinct (argsort (map float_key p))
           \<and> (\<forall>key cols col.
                 key \<noteq> ''params'' \<and> map_of ?res key = Some (Arr (RecArray cols))
                 \<and> map_of cols g = Some col
               \<longrightarrow> (\<exists>cols'. map_of res' key = Some (Arr (RecArray cols'))
                      \<and> map_of cols' g
                          = Some (map (\<lambda>i. col ! i) (argsort (map float_key p)))))"
    by blast
  from r(4) have k: "\<And>key cols col.
        key \<noteq> ''params'' \<Longrightarrow> map_of ?res key = Some (Arr (RecArray cols)) \<Longrightarrow>
        map_of cols ''icu'' = Some col \<Longrightarrow>
        \<exists>cols'. map_of res' key = Some (Arr (RecArray cols'))
           \<and> map_of cols' ''icu'' = Some (map (\<lambda>i. col ! i) [1, 2, 0])"
    unfolding as [symmetric] by simp
  from r(1) have a: "sort_features [(''rank_features_groups'', ?res)] ''rank_features_groups''
          = Inr [(''rank_features_groups'', res')]"
    by simp
  from r(2) have b: "map fst res' = [''params'', ''names'', ''pvals_adj'']" by simp
  from r(3) have c: "map_of res' ''params'' = Some (Params [(''groupby'', ''ward'')])" by simp
  from k [of "''names''" "[(''icu'', ?n)]" ?n]
  have d: "\<exists>cols. map_of res' ''names'' = Some (Arr (RecArray cols))
            \<and> map_of cols ''icu'' = Some [Str ''sex'', Str ''diag'', Str ''age'']"
    by simp
  from k [of "''pvals_adj''" ?P ?p]
  have e: "\<exists>cols. map_of res' ''pvals_adj'' = Some (Arr (RecArray cols))
            \<and> map_of cols ''icu'' = Some [Num (1 / 10), Num (3 / 10), Num (1 / 2)]"
    by simp
  show ?thesis by (rule exI [of _ res']) (intro conjI a b c d e)
qed

end
